theory Spec2Isabelle
  imports Complex_Main
begin

section \<open>Arrays and errors\<close>

text \<open>
  The module \<^verbatim>\<open>qwfilter/kalman.py\<close> computes with numpy arrays of floats. An array of
  rank one is a list of reals, an array of rank two the list of its rows, an array of rank
  three the list of its slices along the first axis. The entries are real numbers: the
  development is about the values the formulas of the code denote. Rounding is looked at
  in one place, for the weights of the transform, where it decides whether they sum to one.

  The functions are embedded for arguments of the ranks the code documents (a mean is a
  vector, a covariance a square matrix). Where numpy would broadcast or refuse operands of
  other shapes, the shapes are hypotheses of the theorems below (\<open>is_mat\<close>, \<open>length\<close>).
  What the code itself raises, what an unset attribute or an unbound name raises, and what
  the calls into \<^verbatim>\<open>scipy.linalg\<close> and into the model raise, are values \<open>Inl\<close> of the
  result type.
\<close>

type_synonym vec = "real list"
type_synonym mat = "real list list"
type_synonym ten3 = "real list list list"

datatype error =
    AssertionError
  | ValueError
  | TypeError
  | AttributeError string
  | NameError string
  | LinAlgError
  | ModelError

definition is_mat :: "nat \<Rightarrow> nat \<Rightarrow> mat \<Rightarrow> bool" where
  "is_mat r c M = (length M = r \<and> list_all (\<lambda>row. length row = c) M)"


definition ncols :: "mat \<Rightarrow> nat" where
  "ncols M = (case M of [] \<Rightarrow> 0 | row # _ \<Rightarrow> length row)"

definition zeros :: "nat \<Rightarrow> nat \<Rightarrow> mat" where
  "zeros r c = replicate r (replicate c 0)"

definition smul :: "real \<Rightarrow> mat \<Rightarrow> mat" where
  "smul c M = map (map (\<lambda>x. c * x)) M"

definition mneg :: "mat \<Rightarrow> mat" where
  "mneg M = map (map uminus) M"

definition vadd :: "vec \<Rightarrow> vec \<Rightarrow> vec" where
  "vadd u v = map2 (+) u v"

definition vsub :: "vec \<Rightarrow> vec \<Rightarrow> vec" where
  "vsub u v = map2 (-) u v"

definition madd :: "mat \<Rightarrow> mat \<Rightarrow> mat" where
  "madd A B = map2 vadd A B"

definition msub :: "mat \<Rightarrow> mat \<Rightarrow> mat" where
  "msub A B = map2 vsub A B"

definition np_transpose :: "mat \<Rightarrow> mat" where
  "np_transpose M = map (\<lambda>j. map (\<lambda>row. row ! j) M) [0..<ncols M]"

text \<open>
  \<^verbatim>\<open>a[lo:lo+len(src)] = src\<close> along the first axis, for a block \<open>src\<close> of the shape of
  the slice.
\<close>

definition assign_rows :: "nat \<Rightarrow> 'a list \<Rightarrow> 'a list \<Rightarrow> 'a list" where
  "assign_rows lo M src = take lo M @ src @ drop (lo + length src) M"

text \<open>Reading an attribute that no call has set yet raises \<^verbatim>\<open>AttributeError\<close>.\<close>

definition attr :: "string \<Rightarrow> 'a option \<Rightarrow> error + 'a" where
  "attr name v = (case v of None \<Rightarrow> Inl (AttributeError name) | Some a \<Rightarrow> Inr a)"

text \<open>\<^verbatim>\<open>options.get(key, default)\<close>\<close>

definition options_get :: "(string \<rightharpoonup> 'v) \<Rightarrow> string \<Rightarrow> 'v \<Rightarrow> 'v" where
  "options_get opts key dflt = (case opts key of None \<Rightarrow> dflt | Some v \<Rightarrow> v)"

subsection \<open>The contractions of \<^verbatim>\<open>numpy.einsum\<close> that the module uses\<close>

text \<open>\<^verbatim>\<open>einsum('k,ki', w, X)\<close>\<close>

definition einsum_k_ki :: "vec \<Rightarrow> mat \<Rightarrow> vec" where
  "einsum_k_ki w X = map (\<lambda>i. \<Sum>k\<leftarrow>[0..<length w]. w ! k * X ! k ! i) [0..<ncols X]"

text \<open>\<^verbatim>\<open>einsum('ki,kj,k', X, Y, w)\<close>\<close>

definition einsum_ki_kj_k :: "mat \<Rightarrow> mat \<Rightarrow> vec \<Rightarrow> mat" where
  "einsum_ki_kj_k X Y w =
     map (\<lambda>i. map (\<lambda>j. \<Sum>k\<leftarrow>[0..<length w]. X ! k ! i * Y ! k ! j * w ! k) [0..<ncols Y])
       [0..<ncols X]"

text \<open>\<^verbatim>\<open>einsum('ik,jk', A, B)\<close>\<close>

definition einsum_ik_jk :: "mat \<Rightarrow> mat \<Rightarrow> mat" where
  "einsum_ik_jk A B =
     map (\<lambda>i. map (\<lambda>j. \<Sum>k\<leftarrow>[0..<ncols A]. A ! i ! k * B ! j ! k) [0..<length B])
       [0..<length A]"

text \<open>\<^verbatim>\<open>einsum('ik,kj', A, B)\<close>\<close>

definition einsum_ik_kj :: "mat \<Rightarrow> mat \<Rightarrow> mat" where
  "einsum_ik_kj A B =
     map (\<lambda>i. map (\<lambda>j. \<Sum>k\<leftarrow>[0..<length B]. A ! i ! k * B ! k ! j) [0..<ncols B])
       [0..<length A]"

text \<open>\<^verbatim>\<open>einsum('ij,j', A, v)\<close>\<close>

definition einsum_ij_j :: "mat \<Rightarrow> vec \<Rightarrow> vec" where
  "einsum_ij_j A v = map (\<lambda>i. \<Sum>j\<leftarrow>[0..<length v]. A ! i ! j * v ! j) [0..<length A]"

text \<open>\<^verbatim>\<open>einsum('ik,jl,kl', A, B, P)\<close>\<close>

definition einsum_ik_jl_kl :: "mat \<Rightarrow> mat \<Rightarrow> mat \<Rightarrow> mat" where
  "einsum_ik_jl_kl A B P =
     map (\<lambda>i. map (\<lambda>j. \<Sum>k\<leftarrow>[0..<length P]. \<Sum>l\<leftarrow>[0..<ncols P]. A ! i ! k * B ! j ! l * P ! k ! l)
                 [0..<length B])
       [0..<length A]"

text \<open>\<^verbatim>\<open>einsum('...i,...ij,...j', u, A, v)\<close> for vectors \<open>u\<close>, \<open>v\<close> and a matrix \<open>A\<close>\<close>

definition einsum_i_ij_j :: "vec \<Rightarrow> mat \<Rightarrow> vec \<Rightarrow> real" where
  "einsum_i_ij_j u A v = (\<Sum>i\<leftarrow>[0..<length u]. \<Sum>j\<leftarrow>[0..<length v]. u ! i * A ! i ! j * v ! j)"

text \<open>\<^verbatim>\<open>einsum('...kk->...k', A)\<close>, the diagonal of a matrix\<close>

definition einsum_kk_k :: "mat \<Rightarrow> vec" where
  "einsum_kk_k A = map (\<lambda>k. A ! k ! k) [0..<length A]"

section \<open>The library calls\<close>

text \<open>
  \<^verbatim>\<open>scipy.linalg.cholesky(Q, lower=False)\<close>, \<^verbatim>\<open>scipy.linalg.svd(Q)\<close> and
  \<^verbatim>\<open>scipy.linalg.inv(A)\<close> are not code of the module. They are parameters of the
  embedding: functions that return a value or raise. What a theorem needs of them is one of
  its hypotheses; for the decomposition itself, the hypothesis is that the first of them
  is the factorization \<open>cholesky_upper\<close> defined below.
\<close>

record linalg =
  scipy_cholesky :: "mat \<Rightarrow> error + mat"
  scipy_svd :: "mat \<Rightarrow> error + (mat \<times> vec \<times> mat)"
  scipy_inv :: "mat \<Rightarrow> error + mat"

section \<open>Work data of the transform and of the Cholesky decomposition\<close>

text \<open>
  Both kinds of work object get their attributes as the calls set them:
  \<open>None\<close> is an attribute not set. \<^verbatim>\<open>DifferentiableCholesky\<close> writes \<^verbatim>\<open>S\<close> and its
  index data on whatever work object it is given, the transform's own included, so the
  transform's work record extends the one of the decomposition.
\<close>

record chol_work =
  cw_S :: "mat option"
  cw_ni_range :: "nat list option"
  cw_ni_tril_indices :: "(nat list \<times> nat list) option"
  cw_gradient_data_initialized :: "nat option"

record ut_work = chol_work +
  utw_i :: vec
  utw_Pi :: mat
  utw_i_sigma :: "mat option"
  utw_i_dev :: "mat option"
  utw_o_sigma :: "mat option"
  utw_o_dev :: "mat option"
  utw_o :: "vec option"
  utw_Po :: "mat option"
  utw_di_dev_dq :: "ten3 option"
  utw_di_sigma_dq :: "ten3 option"
  utw_do_dev_dq :: "ten3 option"

definition chol_Work :: chol_work where
  \<comment> \<open>\<^verbatim>\<open>DifferentiableCholesky.Work()\<close>, an empty \<^verbatim>\<open>AttrDict\<close>\<close>
  "chol_Work = \<lparr>cw_S = None, cw_ni_range = None, cw_ni_tril_indices = None,
                 cw_gradient_data_initialized = None\<rparr>"

definition UnscentedTransformWork :: "vec \<Rightarrow> mat \<Rightarrow> ut_work" where
  "UnscentedTransformWork i Pi =
     \<lparr>cw_S = None, cw_ni_range = None, cw_ni_tril_indices = None,
      cw_gradient_data_initialized = None,
      utw_i = i, utw_Pi = Pi, utw_i_sigma = None, utw_i_dev = None, utw_o_sigma = None,
      utw_o_dev = None, utw_o = None, utw_Po = None, utw_di_dev_dq = None,
      utw_di_sigma_dq = None, utw_do_dev_dq = None\<rparr>"

section \<open>\<^verbatim>\<open>DifferentiableCholesky.decompose\<close>\<close>

definition decompose ::
  "linalg \<Rightarrow> 'a chol_work_scheme \<Rightarrow> mat \<Rightarrow> error + ('a chol_work_scheme \<times> mat)" where
  "decompose la work Q =
     (case scipy_cholesky la Q of
        Inl err \<Rightarrow> Inl err
      | Inr S \<Rightarrow> Inr (work\<lparr>cw_S := Some S\<rparr>, S))"

section \<open>The unscented transform\<close>

datatype ut_class = CholeskyUnscentedTransform | SVDUnscentedTransform

text \<open>Option values are strings or numbers (Python's booleans are numbers).\<close>

datatype pyval = PyStr string | PyNum real

type_synonym options = "string \<rightharpoonup> pyval"

record ut =
  ut_cls :: ut_class
  ut_ni :: nat
  ut_kappa :: real
  ut_nsigma :: nat
  ut_weights :: vec

text \<open>
  \<^verbatim>\<open>UnscentedTransformBase.__init__(self, ni, **options)\<close>. A \<^verbatim>\<open>kappa\<close> that is a string
  makes \<^verbatim>\<open>self.ni + self.kappa\<close> raise \<^verbatim>\<open>TypeError\<close>. The \<^verbatim>\<open>assert\<close> is the one of
  a Python run without \<^verbatim>\<open>-O\<close>.
\<close>

definition ut_init :: "ut_class \<Rightarrow> nat \<Rightarrow> options \<Rightarrow> error + ut" where
  "ut_init cls ni opts =
     (case options_get opts ''kappa'' (PyNum 0) of
        PyStr s \<Rightarrow> Inl TypeError
      | PyNum kappa \<Rightarrow>
          if \<not> (real ni + kappa \<noteq> 0) then Inl AssertionError
          else
            let nsigma = 2 * ni + (if kappa \<noteq> 0 then 1 else 0);
                weights = replicate nsigma (0.5 / (real ni + kappa));
                weights = (if kappa \<noteq> 0
                           then weights[length weights - 1 := kappa / (real ni + kappa)]
                           else weights)
            in Inr \<lparr>ut_cls = cls, ut_ni = ni, ut_kappa = kappa, ut_nsigma = nsigma,
                     ut_weights = weights\<rparr>)"

text \<open>
  The square root method of the two subclasses. \<^verbatim>\<open>U * np.sqrt(s)\<close> scales column \<open>j\<close> of
  \<open>U\<close> by the root of \<open>s[j]\<close>.
\<close>

definition ut_sqrt :: "linalg \<Rightarrow> ut \<Rightarrow> ut_work \<Rightarrow> mat \<Rightarrow> error + (ut_work \<times> mat)" where
  "ut_sqrt la t work Q =
     (case ut_cls t of
        CholeskyUnscentedTransform \<Rightarrow> decompose la work Q
      | SVDUnscentedTransform \<Rightarrow>
          (case scipy_svd la Q of
             Inl err \<Rightarrow> Inl err
           | Inr (U, s, VT) \<Rightarrow>
               let S = np_transpose (map (\<lambda>row. map2 (*) row (map sqrt s)) U)
               in Inr (work\<lparr>cw_S := Some S\<rparr>, S)))"

definition sigma_points :: "linalg \<Rightarrow> ut \<Rightarrow> ut_work \<Rightarrow> error + (ut_work \<times> mat)" where
  "sigma_points la t work =
     (let ni = ut_ni t in
      case ut_sqrt la t work (smul (real ni + ut_kappa t) (utw_Pi work)) of
        Inl err \<Rightarrow> Inl err
      | Inr (work, S) \<Rightarrow>
          let i_dev = zeros (ut_nsigma t) ni;
              i_dev = assign_rows 0 i_dev S;
              i_dev = assign_rows ni i_dev (mneg S);
              i_sigma = map (\<lambda>row. vadd row (utw_i work)) i_dev
          in Inr (work\<lparr>utw_i_sigma := Some i_sigma, utw_i_dev := Some i_dev\<rparr>, i_sigma))"

text \<open>
  \<^verbatim>\<open>transform(self, work, f)\<close>. The map \<open>f\<close> is called once, on the matrix whose rows are
  the sigma points, and may raise.
\<close>

definition transform ::
  "linalg \<Rightarrow> ut \<Rightarrow> ut_work \<Rightarrow> (mat \<Rightarrow> error + mat) \<Rightarrow> error + (ut_work \<times> vec \<times> mat)" where
  "transform la t work f =
     (case sigma_points la t work of
        Inl err \<Rightarrow> Inl err
      | Inr (work, i_sigma) \<Rightarrow>
          let weights = ut_weights t in
          (case f i_sigma of
             Inl err \<Rightarrow> Inl err
           | Inr o_sigma \<Rightarrow>
               let out = einsum_k_ki weights o_sigma;
                   o_dev = map (\<lambda>row. vsub row out) o_sigma;
                   Po = einsum_ki_kj_k o_dev o_dev weights
               in Inr (work\<lparr>utw_o_sigma := Some o_sigma, utw_o_dev := Some o_dev,
                             utw_o := Some out, utw_Po := Some Po\<rparr>, out, Po)))"

definition crosscov :: "ut \<Rightarrow> ut_work \<Rightarrow> error + mat" where
  "crosscov t work =
     (case attr ''i_dev'' (utw_i_dev work) of
        Inl err \<Rightarrow> Inl err
      | Inr i_dev \<Rightarrow>
          (case attr ''o_dev'' (utw_o_dev work) of
             Inl err \<Rightarrow> Inl err
           | Inr o_dev \<Rightarrow> Inr (einsum_ki_kj_k i_dev o_dev (ut_weights t))))"

section \<open>Derivatives of the Cholesky decomposition\<close>

text \<open>
  \<^verbatim>\<open>np.tril_indices(ni)\<close>: the row and the column indices of the lower triangle, row by
  row.
\<close>

definition tril_indices :: "nat \<Rightarrow> nat list \<times> nat list" where
  "tril_indices n =
     (let ps = concat (map (\<lambda>r. map (\<lambda>c. (r, c)) [0..<Suc r]) [0..<n])
      in (map fst ps, map snd ps))"

definition initialize_gradient_data :: "'a chol_work_scheme \<Rightarrow> nat \<Rightarrow> 'a chol_work_scheme" where
  "initialize_gradient_data work ni =
     (if (case cw_gradient_data_initialized work of None \<Rightarrow> 0 | Some m \<Rightarrow> m) = ni then work
      else work\<lparr>cw_ni_range := Some [0..<ni],
                 cw_ni_tril_indices := Some (tril_indices ni),
                 cw_gradient_data_initialized := Some ni\<rparr>)"

text \<open>
  The array \<open>A\<close> of rank four in \<^verbatim>\<open>diff\<close> is a function of its four indices, zero
  where nothing was written. An assignment through index arrays writes one entry for each
  position of the broadcast index arrays; \<^verbatim>\<open>A[...] += v\<close> reads all the entries first.
\<close>

type_synonym ten4 = "nat \<times> nat \<times> nat \<times> nat \<Rightarrow> real"

definition scatter :: "('x \<Rightarrow> nat \<times> nat \<times> nat \<times> nat) \<Rightarrow> ('x \<Rightarrow> real) \<Rightarrow> 'x list \<Rightarrow> ten4 \<Rightarrow> ten4" where
  "scatter key val xs A = fold (\<lambda>x B. B(key x := val x)) xs A"

text \<open>The positions of \<^verbatim>\<open>np.ix_(i, j, k)\<close>.\<close>

definition ix_positions :: "nat \<Rightarrow> nat \<Rightarrow> nat \<Rightarrow> (nat \<times> nat \<times> nat) list" where
  "ix_positions la lb lc =
     concat (map (\<lambda>a. concat (map (\<lambda>b. map (\<lambda>c. (a, b, c)) [0..<lc]) [0..<lb])) [0..<la])"

definition diff_A :: "mat \<Rightarrow> nat list \<Rightarrow> nat list \<Rightarrow> nat list \<Rightarrow> ten4" where
  "diff_A S i j k =
     (let pos = ix_positions (length i) (length j) (length k);
          A = (\<lambda>_. 0);
          A = scatter (\<lambda>(a, b, c). (i ! a, j ! b, i ! a, k ! c))
                      (\<lambda>(a, b, c). S ! (k ! c) ! (j ! b)) pos A;
          A = scatter (\<lambda>(a, b, c). (i ! a, j ! b, j ! b, k ! c))
                      (\<lambda>(a, b, c). A (i ! a, j ! b, j ! b, k ! c) + S ! (k ! c) ! (i ! a)) pos A
      in A)"

text \<open>\<^verbatim>\<open>dS_dq[..., j, i] = dS_dq_tril\<close> on one slice of \<open>dS_dq\<close>.\<close>

definition assign_ji :: "nat list \<Rightarrow> nat list \<Rightarrow> vec \<Rightarrow> mat \<Rightarrow> mat" where
  "assign_ji j i vs M =
     fold (\<lambda>a B. B[j ! a := (B ! (j ! a))[i ! a := vs ! a]]) [0..<length vs] M"

definition diff ::
  "linalg \<Rightarrow> 'a chol_work_scheme \<Rightarrow> ten3 \<Rightarrow> error + ('a chol_work_scheme \<times> ten3)" where
  "diff la work dQ_dq =
     (let nq = length dQ_dq in
      case attr ''S'' (cw_S work) of
        Inl err \<Rightarrow> Inl err
      | Inr S \<Rightarrow>
          let ni = length S;
              work = initialize_gradient_data work ni
          in
          (case attr ''ni_range'' (cw_ni_range work) of
             Inl err \<Rightarrow> Inl err
           | Inr k \<Rightarrow>
               (case attr ''ni_tril_indices'' (cw_ni_tril_indices work) of
                  Inl err \<Rightarrow> Inl err
                | Inr (i, j) \<Rightarrow>
                    let A = diff_A S i j k;
                        A_tril = map (\<lambda>a. map (\<lambda>b. A (i ! a, j ! a, i ! b, j ! b))
                                               [0..<length i]) [0..<length i]
                    in
                    (case scipy_inv la A_tril of
                       Inl err \<Rightarrow> Inl err
                     | Inr A_tril_inv \<Rightarrow>
                         let dQ_dq_tril = map (\<lambda>dQ. map (\<lambda>a. dQ ! (i ! a) ! (j ! a)) [0..<length i])
                                              dQ_dq;
                             dS_dq_tril = map (\<lambda>dQ_tril. einsum_ij_j A_tril_inv dQ_tril) dQ_dq_tril;
                             dS_dq = replicate nq (zeros ni ni);
                             dS_dq = map2 (assign_ji j i) dS_dq_tril dS_dq
                         in Inr (work, dS_dq)))))"

section \<open>Derivatives of the unscented transform\<close>

definition ut_sqrt_diff :: "linalg \<Rightarrow> ut \<Rightarrow> ut_work \<Rightarrow> ten3 \<Rightarrow> error + (ut_work \<times> ten3)" where
  \<comment> \<open>only \<^verbatim>\<open>CholeskyUnscentedTransform\<close> defines \<^verbatim>\<open>sqrt_diff\<close>\<close>
  "ut_sqrt_diff la t work dQ_dq =
     (case ut_cls t of
        CholeskyUnscentedTransform \<Rightarrow> diff la work dQ_dq
      | SVDUnscentedTransform \<Rightarrow> Inl (AttributeError ''sqrt_diff''))"

text \<open>\<^verbatim>\<open>np.rollaxis(T, -2)\<close> for \<open>T\<close> of rank three: the middle axis comes first.\<close>

definition rollaxis :: "ten3 \<Rightarrow> ten3" where
  "rollaxis T = map (\<lambda>r. map (\<lambda>M. M ! r) T) [0..<(case T of [] \<Rightarrow> 0 | M # _ \<Rightarrow> length M)]"

definition sigma_points_diff ::
  "linalg \<Rightarrow> ut \<Rightarrow> ut_work \<Rightarrow> mat \<Rightarrow> ten3 \<Rightarrow> error + (ut_work \<times> ten3)" where
  "sigma_points_diff la t work di_dq dPi_dq =
     (let ni = ut_ni t in
      case ut_sqrt_diff la t work (map (smul (real ni + ut_kappa t)) dPi_dq) of
        Inl err \<Rightarrow> Inl err
      | Inr (work, dS_dq) \<Rightarrow>
          let di_dev_dq = replicate (ut_nsigma t) (zeros (length di_dq) (ncols di_dq));
              di_dev_dq = assign_rows 0 di_dev_dq (rollaxis dS_dq);
              di_dev_dq = assign_rows ni di_dev_dq (map mneg (take ni di_dev_dq));
              di_sigma_dq = map (\<lambda>M. madd M di_dq) di_dev_dq
          in Inr (work\<lparr>utw_di_dev_dq := Some di_dev_dq, utw_di_sigma_dq := Some di_sigma_dq\<rparr>,
                  di_sigma_dq))"

text \<open>\<^verbatim>\<open>einsum('ijk,ilj->ilk', F, D)\<close>\<close>

definition einsum_ijk_ilj_ilk :: "ten3 \<Rightarrow> ten3 \<Rightarrow> ten3" where
  "einsum_ijk_ilj_ilk F D =
     map (\<lambda>i. map (\<lambda>l. map (\<lambda>k. \<Sum>j\<leftarrow>[0..<length (F ! i)]. F ! i ! j ! k * D ! i ! l ! j)
                            [0..<ncols (F ! i)])
                 [0..<length (D ! i)])
       [0..<length F]"

text \<open>\<^verbatim>\<open>einsum('k,k...', w, T)\<close> for \<open>T\<close> of rank three\<close>

definition einsum_k_k3 :: "vec \<Rightarrow> ten3 \<Rightarrow> mat" where
  "einsum_k_k3 w T =
     (let M0 = (case T of [] \<Rightarrow> [] | M # _ \<Rightarrow> M) in
      map (\<lambda>l. map (\<lambda>j. \<Sum>k\<leftarrow>[0..<length w]. w ! k * T ! k ! l ! j) [0..<ncols M0])
        [0..<length M0])"

text \<open>\<^verbatim>\<open>einsum('klj,ki,k->lij', D, X, w)\<close>\<close>

definition einsum_klj_ki_k :: "ten3 \<Rightarrow> mat \<Rightarrow> vec \<Rightarrow> ten3" where
  "einsum_klj_ki_k D X w =
     (let M0 = (case D of [] \<Rightarrow> [] | M # _ \<Rightarrow> M) in
      map (\<lambda>l. map (\<lambda>i. map (\<lambda>j. \<Sum>k\<leftarrow>[0..<length w]. D ! k ! l ! j * X ! k ! i * w ! k)
                             [0..<ncols M0])
                  [0..<ncols X])
        [0..<length M0])"

text \<open>\<^verbatim>\<open>einsum('kli,kj,k->lij', D, Y, w)\<close>\<close>

definition einsum_kli_kj_k :: "ten3 \<Rightarrow> mat \<Rightarrow> vec \<Rightarrow> ten3" where
  "einsum_kli_kj_k D Y w =
     (let M0 = (case D of [] \<Rightarrow> [] | M # _ \<Rightarrow> M) in
      map (\<lambda>l. map (\<lambda>i. map (\<lambda>j. \<Sum>k\<leftarrow>[0..<length w]. D ! k ! l ! i * Y ! k ! j * w ! k)
                             [0..<ncols Y])
                  [0..<ncols M0])
        [0..<length M0])"

text \<open>
  \<^verbatim>\<open>transform_diff\<close>. The in-place \<^verbatim>\<open>dPo_dq += np.swapaxes(dPo_dq, -1, -2)\<close> adds to each
  slice its transpose, as numpy does for operands that overlap.
\<close>

definition transform_diff ::
  "linalg \<Rightarrow> ut \<Rightarrow> ut_work \<Rightarrow> (mat \<Rightarrow> error + ten3) \<Rightarrow> (mat \<Rightarrow> error + ten3) \<Rightarrow> mat \<Rightarrow> ten3
     \<Rightarrow> error + (ut_work \<times> mat \<times> ten3)" where
  "transform_diff la t work df_dq df_dx di_dq dPi_dq =
     (let weights = ut_weights t in
      case attr ''i_sigma'' (utw_i_sigma work) of
        Inl err \<Rightarrow> Inl err
      | Inr i_sigma \<Rightarrow>
          (case sigma_points_diff la t work di_dq dPi_dq of
             Inl err \<Rightarrow> Inl err
           | Inr (work, di_sigma_dq) \<Rightarrow>
               (case df_dq i_sigma of
                  Inl err \<Rightarrow> Inl err
                | Inr Do_sigma_Dq \<Rightarrow>
                    (case df_dx i_sigma of
                       Inl err \<Rightarrow> Inl err
                     | Inr dfdx \<Rightarrow>
                         let Do_sigma_Dq = map2 madd Do_sigma_Dq
                                             (einsum_ijk_ilj_ilk dfdx di_sigma_dq);
                             do_dq = einsum_k_k3 weights Do_sigma_Dq;
                             do_dev_dq = map (\<lambda>M. msub M do_dq) Do_sigma_Dq
                         in
                         (case attr ''o_dev'' (utw_o_dev work) of
                            Inl err \<Rightarrow> Inl err
                          | Inr o_dev \<Rightarrow>
                              let dPo_dq = einsum_klj_ki_k do_dev_dq o_dev weights;
                                  dPo_dq = map (\<lambda>M. madd M (np_transpose M)) dPo_dq
                              in Inr (work\<lparr>utw_do_dev_dq := Some do_dev_dq\<rparr>, do_dq, dPo_dq))))))"

text \<open>\<^verbatim>\<open>einsum('ki,klj,k->lij', X, D, w)\<close>\<close>

definition einsum_ki_klj_k :: "mat \<Rightarrow> ten3 \<Rightarrow> vec \<Rightarrow> ten3" where
  "einsum_ki_klj_k X D w =
     (let M0 = (case D of [] \<Rightarrow> [] | M # _ \<Rightarrow> M) in
      map (\<lambda>l. map (\<lambda>i. map (\<lambda>j. \<Sum>k\<leftarrow>[0..<length w]. X ! k ! i * D ! k ! l ! j * w ! k)
                             [0..<ncols M0])
                  [0..<ncols X])
        [0..<length M0])"

definition crosscov_diff :: "ut \<Rightarrow> ut_work \<Rightarrow> error + ten3" where
  "crosscov_diff t work =
     (case attr ''di_dev_dq'' (utw_di_dev_dq work) of
        Inl err \<Rightarrow> Inl err
      | Inr di_dev_dq \<Rightarrow>
          (case attr ''o_dev'' (utw_o_dev work) of
             Inl err \<Rightarrow> Inl err
           | Inr o_dev \<Rightarrow>
               let dPio_dq = einsum_kli_kj_k di_dev_dq o_dev (ut_weights t) in
               (case attr ''i_dev'' (utw_i_dev work) of
                  Inl err \<Rightarrow> Inl err
                | Inr i_dev \<Rightarrow>
                    (case attr ''do_dev_dq'' (utw_do_dev_dq work) of
                       Inl err \<Rightarrow> Inl err
                     | Inr do_dev_dq \<Rightarrow>
                         Inr (map2 madd dPio_dq
                                (einsum_ki_klj_k i_dev do_dev_dq (ut_weights t)))))))"

section \<open>The model and the filter's work data\<close>

text \<open>
  The model is the filter's collaborator: its functions are fields of a record and may
  raise. \<open>model_f\<close> and \<open>model_h\<close> are called on the matrix whose rows are the sigma
  points; their derivatives return one slice for each sigma point.
\<close>

record model =
  model_nx :: nat
  model_f :: "int \<Rightarrow> mat \<Rightarrow> error + mat"
  model_Q :: "int \<Rightarrow> vec \<Rightarrow> error + mat"
  model_h :: "int \<Rightarrow> mat \<Rightarrow> error + mat"
  model_R :: "error + mat"
  model_dh_dq :: "int \<Rightarrow> mat \<Rightarrow> error + ten3"
  model_dh_dx :: "int \<Rightarrow> mat \<Rightarrow> error + ten3"
  model_dR_dq :: "error + ten3"

text \<open>
  \<^verbatim>\<open>DTKalmanFilterWork\<close>: \<^verbatim>\<open>x\<close>, \<^verbatim>\<open>Px\<close> and \<^verbatim>\<open>k\<close> are set by the constructor, the other
  attributes by the calls (or, as \<^verbatim>\<open>L\<close>, \<^verbatim>\<open>dx_dq\<close> and \<^verbatim>\<open>dPx_dq\<close>, by the caller).
\<close>

record kf_work =
  w_x :: vec
  w_Px :: mat
  w_k :: int
  w_active :: "bool list option"
  w_pred_ut :: "ut_work option"
  w_corr_ut :: "ut_work option"
  w_py_chol :: "chol_work option"
  w_prev_x :: "vec option"
  w_prev_Px :: "mat option"
  w_e :: "vec option"
  w_Pxh :: "mat option"
  w_PyI :: "mat option"
  w_PyC :: "mat option"
  w_PyCI :: "mat option"
  w_K :: "mat option"
  w_PyCD :: "vec option"
  w_L :: "real option"
  w_dx_dq :: "mat option"
  w_dPx_dq :: "ten3 option"

definition DTKalmanFilterWork :: "vec \<Rightarrow> mat \<Rightarrow> int \<Rightarrow> kf_work" where
  "DTKalmanFilterWork x Px k =
     \<lparr>w_x = x, w_Px = Px, w_k = k, w_active = None, w_pred_ut = None, w_corr_ut = None,
      w_py_chol = None, w_prev_x = None, w_prev_Px = None, w_e = None, w_Pxh = None,
      w_PyI = None, w_PyC = None, w_PyCI = None, w_K = None, w_PyCD = None, w_L = None,
      w_dx_dq = None, w_dPx_dq = None\<rparr>"

text \<open>
  A measurement vector is a masked array: each entry has its value and its mask bit
  (\<open>True\<close> for a missing entry); a plain array has no bit set.
\<close>

type_synonym masked = "(real \<times> bool) list"

definition getmaskarray :: "masked \<Rightarrow> bool list" where
  "getmaskarray y = map snd y"

definition compressed :: "masked \<Rightarrow> vec" where
  "compressed y = map fst (filter (\<lambda>(v, m). \<not> m) y)"

text \<open>Indexing an axis with a Boolean array keeps the positions that are \<open>True\<close>.\<close>

definition compress :: "bool list \<Rightarrow> 'a list \<Rightarrow> 'a list" where
  "compress active xs = map snd (filter fst (zip active xs))"

section \<open>Construction\<close>

definition choose_ut_transform_class :: "options \<Rightarrow> error + ut_class" where
  "choose_ut_transform_class opts =
     (let sqrt = options_get opts ''sqrt'' (PyStr ''cholesky'') in
      if sqrt = PyStr ''cholesky'' then Inr CholeskyUnscentedTransform
      else if sqrt = PyStr ''svd'' then Inr SVDUnscentedTransform
      else Inl ValueError)"

text \<open>
  The call \<^verbatim>\<open>UTClass(model.nx, **ut_options)\<close>: a key \<^verbatim>\<open>ni\<close> or \<^verbatim>\<open>self\<close> among the
  options collides with the constructor's own parameters.
\<close>

definition ut_new :: "ut_class \<Rightarrow> nat \<Rightarrow> options \<Rightarrow> error + ut" where
  "ut_new cls ni opts =
     (if opts ''ni'' \<noteq> None \<or> opts ''self'' \<noteq> None then Inl TypeError
      else ut_init cls ni opts)"

text \<open>
  \<^verbatim>\<open>utils.extract_subkeys\<close> is not among the sources: it is the parameter \<open>extract_subkeys\<close>
  of the constructors.
\<close>

definition make_ut ::
  "(options \<Rightarrow> string \<Rightarrow> options) \<Rightarrow> string \<Rightarrow> model \<Rightarrow> options \<Rightarrow> error + ut" where
  "make_ut extract_subkeys prefix m opts =
     (let ut_options = opts ++ extract_subkeys opts prefix in
      case choose_ut_transform_class ut_options of
        Inl err \<Rightarrow> Inl err
      | Inr UTClass \<Rightarrow> ut_new UTClass (model_nx m) ut_options)"

record DTUnscentedPredictor =
  pred_model :: model
  predictor_ut :: ut

record DTUnscentedCorrector =
  corr_model :: model
  corrector_ut :: ut

definition DTUnscentedPredictor_init ::
  "(options \<Rightarrow> string \<Rightarrow> options) \<Rightarrow> model \<Rightarrow> options \<Rightarrow> error + DTUnscentedPredictor" where
  "DTUnscentedPredictor_init extract_subkeys m opts =
     (case make_ut extract_subkeys ''pred_ut_'' m opts of
        Inl err \<Rightarrow> Inl err
      | Inr t \<Rightarrow> Inr \<lparr>pred_model = m, predictor_ut = t\<rparr>)"

definition DTUnscentedCorrector_init ::
  "(options \<Rightarrow> string \<Rightarrow> options) \<Rightarrow> model \<Rightarrow> options \<Rightarrow> error + DTUnscentedCorrector" where
  "DTUnscentedCorrector_init extract_subkeys m opts =
     (case make_ut extract_subkeys ''corr_ut_'' m opts of
        Inl err \<Rightarrow> Inl err
      | Inr t \<Rightarrow> Inr \<lparr>corr_model = m, corrector_ut = t\<rparr>)"

text \<open>
  \<^verbatim>\<open>DTUnscentedKalmanFilter(DTUnscentedPredictor, DTUnscentedCorrector)\<close>: the predictor's
  constructor calls the corrector's through \<^verbatim>\<open>super()\<close> before its own body runs.
\<close>

definition DTUnscentedKalmanFilter_init ::
  "(options \<Rightarrow> string \<Rightarrow> options) \<Rightarrow> model \<Rightarrow> options
     \<Rightarrow> error + (DTUnscentedPredictor \<times> DTUnscentedCorrector)" where
  "DTUnscentedKalmanFilter_init extract_subkeys m opts =
     (case DTUnscentedCorrector_init extract_subkeys m opts of
        Inl err \<Rightarrow> Inl err
      | Inr c \<Rightarrow>
          (case DTUnscentedPredictor_init extract_subkeys m opts of
             Inl err \<Rightarrow> Inl err
           | Inr p \<Rightarrow> Inr (p, c)))"

section \<open>Prediction and correction\<close>

definition predict ::
  "linalg \<Rightarrow> DTUnscentedPredictor \<Rightarrow> kf_work \<Rightarrow> error + (kf_work \<times> vec \<times> mat)" where
  "predict la self work =
     (let f_fun = (\<lambda>x. model_f (pred_model self) (w_k work) x);
          pred_ut = UnscentedTransformWork (w_x work) (w_Px work)
      in
      case transform la (predictor_ut self) pred_ut f_fun of
        Inl err \<Rightarrow> Inl err
      | Inr (pred_ut, f, Pf) \<Rightarrow>
          (case model_Q (pred_model self) (w_k work) (w_x work) of
             Inl err \<Rightarrow> Inl err
           | Inr Q \<Rightarrow>
               let work = work\<lparr>w_pred_ut := Some pred_ut,
                               w_prev_x := Some (w_x work),
                               w_prev_Px := Some (w_Px work),
                               w_k := w_k work + 1,
                               w_x := f,
                               w_Px := madd Pf Q\<rparr>
               in Inr (work, w_x work, w_Px work)))"

definition correct ::
  "linalg \<Rightarrow> DTUnscentedCorrector \<Rightarrow> kf_work \<Rightarrow> masked \<Rightarrow> error + (kf_work \<times> vec \<times> mat)" where
  "correct la self work y =
     (let mask = getmaskarray y;
          active = map Not mask;
          work = work\<lparr>w_active := Some active\<rparr>
      in
      if list_all id mask then Inr (work, w_x work, w_Px work)
      else
        let y = compressed y in
        case model_R (corr_model self) of
          Inl err \<Rightarrow> Inl err
        | Inr R \<Rightarrow>
            let R = map (compress active) (compress active R);
                h_fun = (\<lambda>x. case model_h (corr_model self) (w_k work) x of
                                Inl err \<Rightarrow> Inl err
                              | Inr hx \<Rightarrow> Inr (map (compress active) hx));
                corr_ut = UnscentedTransformWork (w_x work) (w_Px work)
            in
            (case transform la (corrector_ut self) corr_ut h_fun of
               Inl err \<Rightarrow> Inl err
             | Inr (corr_ut, h, Ph) \<Rightarrow>
                 (case crosscov (corrector_ut self) corr_ut of
                    Inl err \<Rightarrow> Inl err
                  | Inr Pxh \<Rightarrow>
                      let Py = madd Ph R in
                      (case decompose la chol_Work Py of
                         Inl err \<Rightarrow> Inl err
                       | Inr (py_chol, PyC) \<Rightarrow>
                           (case scipy_inv la PyC of
                              Inl err \<Rightarrow> Inl err
                            | Inr PyCI \<Rightarrow>
                                let PyI = einsum_ik_jk PyCI PyCI;
                                    e = vsub y h;
                                    K = einsum_ik_kj Pxh PyI;
                                    x_corr = vadd (w_x work) (einsum_ij_j K e);
                                    Px_corr = msub (w_Px work) (einsum_ik_jl_kl K K Py);
                                    work = work\<lparr>w_corr_ut := Some corr_ut,
                                                    w_py_chol := Some py_chol,
                                                    w_prev_x := Some (w_x work),
                                                    w_prev_Px := Some (w_Px work),
                                                    w_e := Some e,
                                                    w_x := x_corr,
                                                    w_Px := Px_corr,
                                                    w_Pxh := Some Pxh,
                                                    w_PyI := Some PyI,
                                                    w_PyC := Some PyC,
                                                    w_PyCI := Some PyCI,
                                                    w_K := Some K\<rparr>
                                in Inr (work, x_corr, Px_corr))))))"

text \<open>
  \<^verbatim>\<open>correction_diff\<close>. After the derivatives of the transform, of the cross covariance and
  of \<open>R\<close>, the statement \<^verbatim>\<open>dPy_dq = dPh_dq + dR_dq\<close> reads the name \<^verbatim>\<open>dPh_dq\<close>, which
  is bound nowhere (the result of \<^verbatim>\<open>transform_diff\<close> was bound to \<^verbatim>\<open>DPh_Dq\<close>): the
  statements after it, which also read the unbound \<^verbatim>\<open>K\<close> and \<^verbatim>\<open>Py\<close> and the attribute
  \<^verbatim>\<open>work.Py\<close> that \<^verbatim>\<open>correct\<close> does not set, are never reached.
\<close>

definition correction_diff ::
  "linalg \<Rightarrow> DTUnscentedCorrector \<Rightarrow> kf_work \<Rightarrow> error + kf_work" where
  "correction_diff la self work =
     (case attr ''active'' (w_active work) of
        Inl err \<Rightarrow> Inl err
      | Inr active \<Rightarrow>
          if \<not> list_ex id active then Inr work
          else
            let dh_dq_fun = (\<lambda>x. case model_dh_dq (corr_model self) (w_k work) x of
                                    Inl err \<Rightarrow> Inl err
                                  | Inr d \<Rightarrow> Inr (map (map (compress active)) d));
                dh_dx_fun = (\<lambda>x. case model_dh_dx (corr_model self) (w_k work) x of
                                    Inl err \<Rightarrow> Inl err
                                  | Inr d \<Rightarrow> Inr (map (map (compress active)) d))
            in
            (case attr ''corr_ut'' (w_corr_ut work) of
               Inl err \<Rightarrow> Inl err
             | Inr corr_ut \<Rightarrow>
                 (case attr ''dx_dq'' (w_dx_dq work) of
                    Inl err \<Rightarrow> Inl err
                  | Inr dx_dq \<Rightarrow>
                      (case attr ''dPx_dq'' (w_dPx_dq work) of
                         Inl err \<Rightarrow> Inl err
                       | Inr dPx_dq \<Rightarrow>
                           (case transform_diff la (corrector_ut self) corr_ut dh_dq_fun dh_dx_fun
                                   dx_dq dPx_dq of
                              Inl err \<Rightarrow> Inl err
                            | Inr (corr_ut, Dh_Dq, DPh_Dq) \<Rightarrow>
                                (case crosscov_diff (corrector_ut self) corr_ut of
                                   Inl err \<Rightarrow> Inl err
                                 | Inr dPxh_dq \<Rightarrow>
                                     (case model_dR_dq (corr_model self) of
                                        Inl err \<Rightarrow> Inl err
                                      | Inr dR_dq \<Rightarrow>
                                          let dR_dq = map (\<lambda>M. map (compress active)
                                                                   (compress active M)) dR_dq;
                                              de_dq = mneg Dh_Dq
                                          in Inl (NameError ''dPh_dq''))))))))"

definition update_likelihood :: "kf_work \<Rightarrow> error + kf_work" where
  "update_likelihood work =
     (case attr ''active'' (w_active work) of
        Inl err \<Rightarrow> Inl err
      | Inr active \<Rightarrow>
          if \<not> list_ex id active then Inr work
          else
            (case attr ''PyC'' (w_PyC work) of
               Inl err \<Rightarrow> Inl err
             | Inr PyC \<Rightarrow>
                 let PyCD = einsum_kk_k PyC;
                     work = work\<lparr>w_PyCD := Some PyCD\<rparr>
                 in
                 (case attr ''L'' (w_L work) of
                    Inl err \<Rightarrow> Inl err
                  | Inr L \<Rightarrow>
                      (case attr ''e'' (w_e work) of
                         Inl err \<Rightarrow> Inl err
                       | Inr e \<Rightarrow>
                           (case attr ''PyI'' (w_PyI work) of
                              Inl err \<Rightarrow> Inl err
                            | Inr PyI \<Rightarrow>
                                let L = L - 0.5 * einsum_i_ij_j e PyI e;
                                    L = L - sum_list (map ln PyCD)
                                in Inr (work\<lparr>w_L := Some L\<rparr>))))))"

section \<open>The filter loop\<close>

text \<open>
  \<^verbatim>\<open>DTKalmanFilterBase.filter\<close> is written against the two abstract methods, which are
  its parameters here; a measurement sequence is the list of its rows.
\<close>

fun for_range :: "(nat \<Rightarrow> 's \<Rightarrow> error + 's) \<Rightarrow> nat list \<Rightarrow> 's \<Rightarrow> error + 's" where
  "for_range body [] s = Inr s"
| "for_range body (k # ks) s =
     (case body k s of Inl err \<Rightarrow> Inl err | Inr s' \<Rightarrow> for_range body ks s')"

definition filter_body ::
  "('a kf_work_scheme \<Rightarrow> 'y \<Rightarrow> error + ('a kf_work_scheme \<times> vec \<times> mat))
     \<Rightarrow> ('a kf_work_scheme \<Rightarrow> error + ('a kf_work_scheme \<times> vec \<times> mat))
     \<Rightarrow> 'y list \<Rightarrow> nat \<Rightarrow> nat
     \<Rightarrow> 'a kf_work_scheme \<times> mat \<times> ten3 \<Rightarrow> error + ('a kf_work_scheme \<times> mat \<times> ten3)" where
  "filter_body correct_m predict_m y N k s =
     (case s of (work, x, Px) \<Rightarrow>
        (case correct_m work (y ! k) of
           Inl err \<Rightarrow> Inl err
         | Inr (work, xk, Pxk) \<Rightarrow>
             let x = x[k := xk];
                 Px = Px[k := Pxk]
             in
             if int k < int N - 1
             then (case predict_m work of
                     Inl err \<Rightarrow> Inl err
                   | Inr (work, _) \<Rightarrow> Inr (work, x, Px))
             else Inr (work, x, Px)))"

definition filter_kf ::
  "model
     \<Rightarrow> ('a kf_work_scheme \<Rightarrow> 'y \<Rightarrow> error + ('a kf_work_scheme \<times> vec \<times> mat))
     \<Rightarrow> ('a kf_work_scheme \<Rightarrow> error + ('a kf_work_scheme \<times> vec \<times> mat))
     \<Rightarrow> 'a kf_work_scheme \<Rightarrow> 'y list \<Rightarrow> error + ('a kf_work_scheme \<times> mat \<times> ten3)" where
  "filter_kf m correct_m predict_m work y =
     (let N = length y;
          x = replicate N (replicate (length (w_x work)) 0);
          Px = replicate N (zeros (length (w_x work)) (model_nx m))
      in for_range (filter_body correct_m predict_m y N) [0..<N] (work, x, Px))"

section \<open>The order of the calls in a filter run\<close>

text \<open>
  A run over \<open>N\<close> measurements makes its calls in this order: the calls at the even
  positions correct with the measurements \<open>0\<close>, \<open>1\<close>, ..., the calls at the odd positions
  predict, and the last of the \<open>2N - 1\<close> calls is a correction.
\<close>

datatype call = Correct nat | Predict

definition alternation :: "nat \<Rightarrow> call list" where
  "alternation N = map (\<lambda>p. if even p then Correct (p div 2) else Predict) [0..<2 * N - 1]"

fun is_Correct :: "call \<Rightarrow> bool" where
  "is_Correct (Correct k) = True"
| "is_Correct Predict = False"

text \<open>
  Making the calls of a list one after the other: each correction appends the mean and
  the covariance it returns to the trajectories; the first call that raises ends the run.
\<close>

fun run_calls ::
  "('w \<Rightarrow> 'y \<Rightarrow> error + ('w \<times> vec \<times> mat)) \<Rightarrow> ('w \<Rightarrow> error + ('w \<times> vec \<times> mat)) \<Rightarrow> 'y list
     \<Rightarrow> call list \<Rightarrow> 'w \<times> mat \<times> ten3 \<Rightarrow> error + ('w \<times> mat \<times> ten3)" where
  "run_calls correct_m predict_m y [] s = Inr s"
| "run_calls correct_m predict_m y (Correct k # cs) s =
     (case s of (work, xs, Pxs) \<Rightarrow>
        (case correct_m work (y ! k) of
           Inl err \<Rightarrow> Inl err
         | Inr (work, x, Px) \<Rightarrow> run_calls correct_m predict_m y cs (work, xs @ [x], Pxs @ [Px])))"
| "run_calls correct_m predict_m y (Predict # cs) s =
     (case s of (work, xs, Pxs) \<Rightarrow>
        (case predict_m work of
           Inl err \<Rightarrow> Inl err
         | Inr (work, _) \<Rightarrow> run_calls correct_m predict_m y cs (work, xs, Pxs)))"

section \<open>Valid configurations\<close>

text \<open>
  A transform is configured validly for the options it was built from when the sum of its
  dimension and its \<open>kappa\<close> is not zero and its class is the one that a \<^verbatim>\<open>sqrt\<close> option of
  \<^verbatim>\<open>'cholesky'\<close> or \<^verbatim>\<open>'svd'\<close> names.
\<close>

definition valid_ut :: "options \<Rightarrow> ut \<Rightarrow> bool" where
  "valid_ut ut_options t =
     (real (ut_ni t) + ut_kappa t \<noteq> 0
      \<and> (options_get ut_options ''sqrt'' (PyStr ''cholesky'') = PyStr ''cholesky''
           \<and> ut_cls t = CholeskyUnscentedTransform
         \<or> options_get ut_options ''sqrt'' (PyStr ''cholesky'') = PyStr ''svd''
           \<and> ut_cls t = SVDUnscentedTransform))"

section \<open>Properties of matrices\<close>

text \<open>\<open>gram S\<close> is the product of the transpose of \<open>S\<close> with \<open>S\<close>.\<close>

definition gram :: "mat \<Rightarrow> mat" where
  "gram S = map (\<lambda>i. map (\<lambda>j. \<Sum>k\<leftarrow>[0..<length S]. S ! k ! i * S ! k ! j) [0..<ncols S])
              [0..<ncols S]"

definition identity :: "nat \<Rightarrow> mat" where
  "identity n = map (\<lambda>i. map (\<lambda>j. if i = j then 1 else 0) [0..<n]) [0..<n]"

definition upper_triangular :: "mat \<Rightarrow> bool" where
  "upper_triangular S = (\<forall>i<length S. \<forall>j<i. S ! i ! j = 0)"

definition symmetric :: "nat \<Rightarrow> mat \<Rightarrow> bool" where
  "symmetric n M = (is_mat n n M \<and> (\<forall>i<n. \<forall>j<n. M ! i ! j = M ! j ! i))"

text \<open>The quadratic form of \<open>M\<close> at \<open>v\<close> is \<open>einsum_i_ij_j v M v\<close>.\<close>

definition psd :: "nat \<Rightarrow> mat \<Rightarrow> bool" where
  "psd n M = (\<forall>v. length v = n \<longrightarrow> 0 \<le> einsum_i_ij_j v M v)"

definition pd :: "nat \<Rightarrow> mat \<Rightarrow> bool" where
  "pd n M = (\<forall>v. length v = n \<and> v \<noteq> replicate n 0 \<longrightarrow> 0 < einsum_i_ij_j v M v)"

definition sym_psd :: "nat \<Rightarrow> mat \<Rightarrow> bool" where
  "sym_psd n M = (symmetric n M \<and> psd n M)"

definition sym_pd :: "nat \<Rightarrow> mat \<Rightarrow> bool" where
  "sym_pd n M = (symmetric n M \<and> pd n M)"


definition inv_ok :: "linalg \<Rightarrow> bool" where
  "inv_ok la =
     (\<forall>A B. scipy_inv la A = Inr B
        \<longrightarrow> is_mat (length A) (length A) B
          \<and> einsum_ik_kj A B = identity (length A) \<and> einsum_ik_kj B A = identity (length A))"



section \<open>The factorization behind \<^verbatim>\<open>scipy.linalg.cholesky\<close>\<close>

text \<open>
  With \<^verbatim>\<open>lower=False\<close> the library hands \<open>Q\<close> to LAPACK's \<^verbatim>\<open>potrf\<close> for the upper triangle
  and clears the entries below the diagonal of the result; a matrix that is not square is
  refused before. In exact arithmetic \<^verbatim>\<open>potrf\<close> finds the factor row by row. The pivot of
  row \<open>j\<close> is \<open>Q[j][j]\<close> minus the squares of the entries found above it in column \<open>j\<close>; a
  pivot that is not positive is the error; otherwise the diagonal entry is the square root
  of the pivot, and the entry in column \<open>i\<close> to its right is \<open>Q[j][i]\<close>, minus the sum of
  the products of the entries above in the columns \<open>j\<close> and \<open>i\<close>, divided by the diagonal
  entry. No entry of \<open>Q\<close> below the diagonal is read.

  \<open>chol_row Q n R\<close> is the next row after the rows \<open>R\<close>, \<open>chol_loop\<close> adds \<open>m\<close> rows.
\<close>

definition chol_row :: "mat \<Rightarrow> nat \<Rightarrow> mat \<Rightarrow> error + vec" where
  "chol_row Q n R =
     (let j = length R;
          ajj = Q ! j ! j - (\<Sum>k\<leftarrow>[0..<j]. R ! k ! j * R ! k ! j)
      in if ajj \<le> 0 then Inl LinAlgError
         else Inr (map (\<lambda>i. if i < j then 0
                            else if i = j then sqrt ajj
                            else (Q ! j ! i - (\<Sum>k\<leftarrow>[0..<j]. R ! k ! j * R ! k ! i)) / sqrt ajj)
                       [0..<n]))"

fun chol_loop :: "mat \<Rightarrow> nat \<Rightarrow> nat \<Rightarrow> mat \<Rightarrow> error + mat" where
  "chol_loop Q n 0 R = Inr R"
| "chol_loop Q n (Suc m) R =
     (case chol_row Q n R of
        Inl err \<Rightarrow> Inl err
      | Inr row \<Rightarrow> chol_loop Q n m (R @ [row]))"

definition cholesky_upper :: "mat \<Rightarrow> error + mat" where
  "cholesky_upper Q =
     (if \<not> is_mat (length Q) (length Q) Q then Inl ValueError
      else chol_loop Q (length Q) (length Q) [])"

text \<open>The symmetric matrix that has the upper triangle of \<open>Q\<close>.\<close>

definition upper_sym :: "mat \<Rightarrow> mat" where
  "upper_sym Q = map (\<lambda>i. map (\<lambda>j. if i \<le> j then Q ! i ! j else Q ! j ! i) [0..<length Q])
                   [0..<length Q]"

text \<open>
  \<open>chol_inv Q n R\<close> is what holds of the rows \<open>R\<close> found so far: they have length \<open>n\<close>, a
  positive diagonal entry and zeros to its left, and the products of their columns are
  the entries of \<open>Q\<close> on and right of the diagonal.
\<close>

definition chol_inv :: "mat \<Rightarrow> nat \<Rightarrow> mat \<Rightarrow> bool" where
  "chol_inv Q n R =
     (length R \<le> n
      \<and> (\<forall>k<length R. length (R ! k) = n \<and> 0 < R ! k ! k \<and> (\<forall>i<k. R ! k ! i = 0)
            \<and> (\<forall>i. k \<le> i \<and> i < n \<longrightarrow> (\<Sum>l<Suc k. R ! l ! k * R ! l ! i) = Q ! k ! i)))"

section \<open>Rounding to binary64\<close>

text \<open>
  The arrays of the module hold binary64 floats. \<open>float64 x\<close> is the binary64 number
  nearest to the real \<open>x\<close>, a tie going to the even significand, for \<open>x\<close> in the range of
  the normal numbers (overflow and subnormal numbers are not modelled): with the exponent
  \<open>e\<close> of \<open>x\<close>, the multiples of \<open>2 ^ (e - 52)\<close> are the numbers to round to.

  \<open>weights_float64\<close> is the weight vector as the constructor of
  \<^verbatim>\<open>UnscentedTransformBase\<close> computes it, with the result of every operation rounded.
\<close>

definition round_half_even :: "real \<Rightarrow> int" where
  "round_half_even y =
     (let f = \<lfloor>y\<rfloor> in
      if y - of_int f < 1 / 2 then f
      else if 1 / 2 < y - of_int f then f + 1
      else if even f then f else f + 1)"

definition float64 :: "real \<Rightarrow> real" where
  "float64 x =
     (if x = 0 then 0
      else let e = \<lfloor>log 2 \<bar>x\<bar>\<rfloor>; u = 2 powr (of_int e - 52)
           in of_int (round_half_even (x / u)) * u)"

definition weights_float64 :: "nat \<Rightarrow> real \<Rightarrow> vec" where
  "weights_float64 ni kappa =
     (let nsigma = 2 * ni + (if kappa \<noteq> 0 then 1 else 0);
          weights = replicate nsigma (float64 (0.5 / float64 (real ni + kappa)))
      in if kappa \<noteq> 0
         then weights[length weights - 1 := float64 (kappa / float64 (real ni + kappa))]
         else weights)"


section \<open>Example data\<close>

text \<open>
  A library whose Cholesky factor of every matrix is \<open>[[2]]\<close> (right for \<open>[[4]]\<close>) and
  whose other calls raise.
\<close>

definition la_two :: linalg where
  "la_two = \<lparr>scipy_cholesky = (\<lambda>Q. Inr [[2]]), scipy_svd = (\<lambda>Q. Inl LinAlgError),
             scipy_inv = (\<lambda>A. Inl LinAlgError)\<rparr>"

text \<open>
  The library on matrices of shape \<open>1 \<times> 1\<close>, where the factor is the square root and the
  inverse the reciprocal; other shapes are refused.
\<close>

definition la_scalar :: linalg where
  "la_scalar =
     \<lparr>scipy_cholesky = (\<lambda>Q. case Q of [[q]] \<Rightarrow> if 0 < q then Inr [[sqrt q]] else Inl LinAlgError
                                    | _ \<Rightarrow> Inl ValueError),
      scipy_svd = (\<lambda>Q. case Q of [[q]] \<Rightarrow> Inr ([[if q < 0 then - 1 else 1]], [\<bar>q\<bar>], [[1]])
                               | _ \<Rightarrow> Inl ValueError),
      scipy_inv = (\<lambda>A. case A of [[a]] \<Rightarrow> if a = 0 then Inl LinAlgError else Inr [[1 / a]]
                               | _ \<Rightarrow> Inl ValueError)\<rparr>"

text \<open>The same library with the factorization of the upper triangle for every shape.\<close>

definition la_upper :: linalg where
  "la_upper = la_scalar\<lparr>scipy_cholesky := cholesky_upper\<rparr>"

text \<open>
  A model with one state, one output and one parameter: the state stays where it is and
  is measured directly, with process noise \<open>1\<close> and with measurement noise \<open>12\<close>, which
  does not depend on the parameter.
\<close>

definition model_one :: model where
  "model_one =
     \<lparr>model_nx = 1,
      model_f = (\<lambda>k X. Inr X),
      model_Q = (\<lambda>k x. Inr [[1]]),
      model_h = (\<lambda>k X. Inr X),
      model_R = Inr [[12]],
      model_dh_dq = (\<lambda>k X. Inr (map (\<lambda>row. [[0]]) X)),
      model_dh_dx = (\<lambda>k X. Inr (map (\<lambda>row. [[1]]) X)),
      model_dR_dq = Inr [[[0]]]\<rparr>"

definition ut_one :: ut where
  "ut_one = \<lparr>ut_cls = CholeskyUnscentedTransform, ut_ni = 1, ut_kappa = 0, ut_nsigma = 2,
             ut_weights = [1 / 2, 1 / 2]\<rparr>"

definition work_one :: kf_work where
  "work_one = (DTKalmanFilterWork [0] [[4]] 0)\<lparr>w_L := Some 0, w_dx_dq := Some [[0]],
                                                  w_dPx_dq := Some [[[0]]]\<rparr>"

text \<open>Two methods that only record the measurement they are given.\<close>

definition spy_correct :: "kf_work \<Rightarrow> real \<Rightarrow> error + (kf_work \<times> vec \<times> mat)" where
  "spy_correct work y = Inr (work\<lparr>w_x := [y], w_Px := [[y]]\<rparr>, [y], [[y]])"

definition spy_predict :: "kf_work \<Rightarrow> error + (kf_work \<times> vec \<times> mat)" where
  "spy_predict work = Inr (work\<lparr>w_k := w_k work + 1\<rparr>, w_x work, w_Px work)"

text \<open>Options without keys of the prefix: nothing is extracted.\<close>

definition no_subkeys :: "options \<Rightarrow> string \<Rightarrow> options" where
  "no_subkeys opts prefix = Map.empty"

text \<open>
  A transform of dimension one with \<open>kappa = 1\<close> of either class, a mean \<open>3\<close> with
  variance \<open>2\<close>, and the affine map \<open>z \<mapsto> 5 z + 1\<close> on the rows of its argument.
\<close>

definition ut_kappa_one :: "ut_class \<Rightarrow> ut" where
  "ut_kappa_one cls = \<lparr>ut_cls = cls, ut_ni = 1, ut_kappa = 1, ut_nsigma = 3,
                        ut_weights = [1 / 4, 1 / 4, 1 / 2]\<rparr>"

definition utw_example :: ut_work where
  "utw_example = UnscentedTransformWork [3] [[2]]"

definition affine_example :: "mat \<Rightarrow> error + mat" where
  "affine_example X = Inr (map (\<lambda>z. vadd (einsum_ij_j [[5]] z) [1]) X)"

text \<open>
  A correction with the model \<open>model_one\<close>: the context \<open>work_one\<close> has mean \<open>0\<close> and
  variance \<open>4\<close>, and the measurement is \<open>8\<close>. \<open>work_corrected\<close> is the context after the
  call.
\<close>

definition corrector_one :: DTUnscentedCorrector where
  "corrector_one = \<lparr>corr_model = model_one, corrector_ut = ut_one\<rparr>"

definition utw_corrected :: ut_work where
  "utw_corrected =
     (UnscentedTransformWork [0] [[4]])
       \<lparr>cw_S := Some [[2]], utw_i_sigma := Some [[2], [- 2]], utw_i_dev := Some [[2], [- 2]],
        utw_o_sigma := Some [[2], [- 2]], utw_o_dev := Some [[2], [- 2]], utw_o := Some [0],
        utw_Po := Some [[4]]\<rparr>"

definition work_corrected :: kf_work where
  "work_corrected =
     work_one\<lparr>w_active := Some [True], w_corr_ut := Some utw_corrected,
               w_py_chol := Some (chol_Work\<lparr>cw_S := Some [[4]]\<rparr>),
               w_prev_x := Some [0], w_prev_Px := Some [[4]], w_e := Some [8],
               w_x := [2], w_Px := [[3]], w_Pxh := Some [[4]], w_PyI := Some [[1 / 16]],
               w_PyC := Some [[4]], w_PyCI := Some [[1 / 4]], w_K := Some [[1 / 4]]\<rparr>"



section \<open>Basic facts about the arrays\<close>

lemma replicate_Suc_update_last: "(replicate (Suc m) a)[m := b] = replicate m a @ [b]"
  by (induction m) auto

lemma sum_list_replicate_real: "sum_list (replicate m (a::real)) = real m * a"
  by (induction m) (auto simp: algebra_simps)

lemma is_mat_nth: "is_mat r c M \<Longrightarrow> i < r \<Longrightarrow> length (M ! i) = c"
  by (auto simp: is_mat_def list_all_length)

lemma is_mat_length: "is_mat r c M \<Longrightarrow> length M = r"
  by (simp add: is_mat_def)

lemma ut_init_value:
  assumes "options_get opts ''kappa'' (PyNum 0) = PyNum \<kappa>" and "real n + \<kappa> \<noteq> 0"
  shows "ut_init cls n opts =
    Inr \<lparr>ut_cls = cls, ut_ni = n, ut_kappa = \<kappa>,
         ut_nsigma = 2 * n + (if \<kappa> \<noteq> 0 then 1 else 0),
         ut_weights = replicate (2 * n) (0.5 / (real n + \<kappa>)) @
            (if \<kappa> \<noteq> 0 then [\<kappa> / (real n + \<kappa>)] else [])\<rparr>"
  using assms by (simp add: ut_init_def Let_def replicate_Suc_update_last del: replicate_Suc replicate.simps)

lemma sigma_points_rows:
  assumes sp: "sigma_points la t work = Inr (work', i_sigma)"
    and S: "cw_S work' = Some S" and m: "is_mat (ut_ni t) (ut_ni t) S"
    and ns: "2 * ut_ni t \<le> ut_nsigma t"
  shows "utw_i_dev work' = Some (S @ mneg S @ replicate (ut_nsigma t - 2 * ut_ni t) (replicate (ut_ni t) 0))"
    and "i_sigma = map (\<lambda>row. vadd row (utw_i work)) (S @ mneg S @ replicate (ut_nsigma t - 2 * ut_ni t) (replicate (ut_ni t) 0))"
    and "utw_i_sigma work' = Some i_sigma"
    and "utw_i work' = utw_i work" and "utw_Pi work' = utw_Pi work"
proof -
  obtain w1 S1 where sq: "ut_sqrt la t work (smul (real (ut_ni t) + ut_kappa t) (utw_Pi work)) = Inr (w1, S1)"
    using sp by (auto simp: sigma_points_def Let_def split: sum.splits)
  have w1: "cw_S w1 = Some S1" "utw_i w1 = utw_i work" "utw_Pi w1 = utw_Pi work"
    using sq by (auto simp: ut_sqrt_def decompose_def Let_def split: ut_class.splits sum.splits prod.splits)
  have w': "work' = w1\<lparr>utw_i_sigma := Some i_sigma, utw_i_dev := Some (assign_rows (ut_ni t) (assign_rows 0 (zeros (ut_nsigma t) (ut_ni t)) S1) (mneg S1))\<rparr>"
    and isg: "i_sigma = map (\<lambda>row. vadd row (utw_i w1)) (assign_rows (ut_ni t) (assign_rows 0 (zeros (ut_nsigma t) (ut_ni t)) S1) (mneg S1))"
    using sp sq by (auto simp: sigma_points_def Let_def)
  have eq: "S1 = S" using w' S w1 by simp
  have len: "length S = ut_ni t" using m by (simp add: is_mat_def)
  have dev: "assign_rows (ut_ni t) (assign_rows 0 (zeros (ut_nsigma t) (ut_ni t)) S) (mneg S)
      = S @ mneg S @ replicate (ut_nsigma t - 2 * ut_ni t) (replicate (ut_ni t) 0)"
    using len ns by (simp add: assign_rows_def zeros_def mneg_def)
  show "utw_i_dev work' = Some (S @ mneg S @ replicate (ut_nsigma t - 2 * ut_ni t) (replicate (ut_ni t) 0))"
    using w' eq dev by simp
  show "i_sigma = map (\<lambda>row. vadd row (utw_i work)) (S @ mneg S @ replicate (ut_nsigma t - 2 * ut_ni t) (replicate (ut_ni t) 0))"
    using isg eq dev w1 by simp
  show "utw_i_sigma work' = Some i_sigma" using w' by simp
  show "utw_i work' = utw_i work" "utw_Pi work' = utw_Pi work" using w' w1 by simp_all
qed

section \<open>The sigma point set\<close>

lemma vadd_pair:
  assumes "length r = length m"
  shows "vadd (vadd r m) (vadd (map uminus r) m) = map (\<lambda>x. 2 * x) m"
  using assms by (induction r m rule: list_induct2) (auto simp: vadd_def)

text \<open>
  Claim C4, in exact arithmetic. For every dimension \<open>n\<close> and every \<open>kappa\<close> with
  \<open>n + kappa \<noteq> 0\<close>, the constructor returns a transform with \<open>2n\<close> sigma points, and one
  more when \<open>kappa \<noteq> 0\<close>; the weights are \<open>0.5 / (n + kappa)\<close> for the \<open>2n\<close> symmetric
  points and \<open>kappa / (n + kappa)\<close> for the centre point when there is one, and these
  real numbers sum to one; and whenever \<^verbatim>\<open>sigma_points\<close> returns, for a mean of length
  \<open>n\<close> and a square root of shape \<open>n \<times> n\<close>, there are \<open>nsigma\<close> sigma points and
  point \<open>i\<close> and point \<open>n + i\<close> add up to twice the mean. The weights the code stores are
  these numbers rounded to binary64, and their sum need not be one: see the
  subsection on the weights in binary64 below.
\<close>

theorem sigma_point_set:
  assumes nk: "real n + \<kappa> \<noteq> 0"
    and k: "options_get opts ''kappa'' (PyNum 0) = PyNum \<kappa>"
  shows "\<exists>t. ut_init cls n opts = Inr t
      \<and> ut_ni t = n \<and> ut_kappa t = \<kappa>
      \<and> ut_nsigma t = 2 * n + (if \<kappa> \<noteq> 0 then 1 else 0)
      \<and> ut_weights t = replicate (2 * n) (0.5 / (real n + \<kappa>)) @
                        (if \<kappa> \<noteq> 0 then [\<kappa> / (real n + \<kappa>)] else [])
      \<and> sum_list (ut_weights t) = 1
      \<and> (\<forall>la work work' i_sigma S.
            sigma_points la t work = Inr (work', i_sigma) \<and> cw_S work' = Some S
            \<and> is_mat n n S \<and> length (utw_i work) = n
            \<longrightarrow> length i_sigma = ut_nsigma t
              \<and> (\<forall>i<n. vadd (i_sigma ! i) (i_sigma ! (n + i)) = map (\<lambda>x. 2 * x) (utw_i work)))"
proof -
  define t where "t = \<lparr>ut_cls = cls, ut_ni = n, ut_kappa = \<kappa>,
         ut_nsigma = 2 * n + (if \<kappa> \<noteq> 0 then 1 else 0),
         ut_weights = replicate (2 * n) (0.5 / (real n + \<kappa>)) @
            (if \<kappa> \<noteq> 0 then [\<kappa> / (real n + \<kappa>)] else [])\<rparr>"
  have init: "ut_init cls n opts = Inr t"
    unfolding t_def using k nk by (rule ut_init_value)
  have sum: "sum_list (ut_weights t) = 1"
  proof -
    have "sum_list (ut_weights t) = real (2 * n) * (0.5 / (real n + \<kappa>)) + (if \<kappa> \<noteq> 0 then \<kappa> / (real n + \<kappa>) else 0)"
      by (simp add: t_def sum_list_replicate_real)
    also have "real (2 * n) * (0.5 / (real n + \<kappa>)) = real n / (real n + \<kappa>)"
      using nk by (simp add: field_simps)
    also have "real n / (real n + \<kappa>) + (if \<kappa> \<noteq> 0 then \<kappa> / (real n + \<kappa>) else 0)
        = (real n + \<kappa>) / (real n + \<kappa>)"
      by (simp only: add_divide_distrib split: if_split) simp
    finally show ?thesis using nk by simp
  qed
  have pairs: "length i_sigma = ut_nsigma t
      \<and> (\<forall>i<n. vadd (i_sigma ! i) (i_sigma ! (n + i)) = map (\<lambda>x. 2 * x) (utw_i work))"
    if sp: "sigma_points la t work = Inr (work', i_sigma)" and S: "cw_S work' = Some S"
      and m: "is_mat n n S" and len: "length (utw_i work) = n"
    for la work work' i_sigma S
  proof -
    have ns: "2 * ut_ni t \<le> ut_nsigma t" by (simp add: t_def)
    have m': "is_mat (ut_ni t) (ut_ni t) S" using m by (simp add: t_def)
    have isg: "i_sigma = map (\<lambda>row. vadd row (utw_i work))
        (S @ mneg S @ replicate (ut_nsigma t - 2 * ut_ni t) (replicate (ut_ni t) 0))"
      by (rule sigma_points_rows(2)[OF sp S m' ns])
    have lS: "length S = n" using m by (rule is_mat_length)
    have l: "length i_sigma = ut_nsigma t"
      using lS by (simp add: isg mneg_def t_def)
    have "vadd (i_sigma ! i) (i_sigma ! (n + i)) = map (\<lambda>x. 2 * x) (utw_i work)" if i: "i < n" for i
    proof -
      have a: "i_sigma ! i = vadd (S ! i) (utw_i work)"
        using i lS by (simp add: isg nth_append mneg_def)
      have b: "i_sigma ! (n + i) = vadd (map uminus (S ! i)) (utw_i work)"
        using i lS by (simp add: isg nth_append mneg_def)
      have "length (S ! i) = length (utw_i work)"
        using is_mat_nth[OF m i] len by simp
      then show ?thesis unfolding a b by (rule vadd_pair)
    qed
    with l show ?thesis by simp
  qed
  have ft: "ut_ni t = n" "ut_kappa t = \<kappa>"
    "ut_nsigma t = 2 * n + (if \<kappa> \<noteq> 0 then 1 else 0)"
    "ut_weights t = replicate (2 * n) (0.5 / (real n + \<kappa>)) @
                        (if \<kappa> \<noteq> 0 then [\<kappa> / (real n + \<kappa>)] else [])"
    by (simp_all add: t_def)
  from init ft sum pairs show ?thesis by blast
qed

lemma ut_init_example: "ut_init CholeskyUnscentedTransform 1 [''kappa'' \<mapsto> PyNum 1]
  = Inr \<lparr>ut_cls = CholeskyUnscentedTransform, ut_ni = 1, ut_kappa = 1, ut_nsigma = 3, ut_weights = [1/4, 1/4, 1/2]\<rparr>"
  by (simp add: ut_init_def options_get_def Let_def numeral_3_eq_3)

lemma sigma_points_example: "sigma_points la_two \<lparr>ut_cls = CholeskyUnscentedTransform, ut_ni = 1, ut_kappa = 1, ut_nsigma = 3, ut_weights = [1/4, 1/4, 1/2]\<rparr>
   (UnscentedTransformWork [3] [[2]]) = Inr ((UnscentedTransformWork [3] [[2]])\<lparr>cw_S := Some [[2]], utw_i_sigma := Some [[5],[1],[3]], utw_i_dev := Some [[2],[-2],[0]]\<rparr>, [[5],[1],[3]])"
  by (simp add: sigma_points_def ut_sqrt_def decompose_def la_two_def Let_def smul_def zeros_def assign_rows_def mneg_def vadd_def UnscentedTransformWork_def numeral_3_eq_3)

theorem sigma_point_set_witness:
  "real 1 + 1 \<noteq> 0 \<and> options_get [''kappa'' \<mapsto> PyNum 1] ''kappa'' (PyNum 0) = PyNum 1
   \<and> (\<exists>t work'. ut_init CholeskyUnscentedTransform 1 [''kappa'' \<mapsto> PyNum 1] = Inr t
        \<and> ut_nsigma t = 3 \<and> ut_weights t = [1/4, 1/4, 1/2] \<and> sum_list (ut_weights t) = 1
        \<and> sigma_points la_two t (UnscentedTransformWork [3] [[2]]) = Inr (work', [[5], [1], [3]])
        \<and> cw_S work' = Some [[2]] \<and> is_mat 1 1 [[2]]
        \<and> vadd ([[5], [1], [3]] ! 0) ([[5], [1], [3]] ! (1 + 0)) = map (\<lambda>x. 2 * x) [3])"
proof -
  have h1: "real 1 + 1 \<noteq> 0" by simp
  have h2: "options_get [''kappa'' \<mapsto> PyNum 1] ''kappa'' (PyNum 0) = PyNum 1"
    by (simp add: options_get_def)
  obtain t where t: "ut_init CholeskyUnscentedTransform 1 [''kappa'' \<mapsto> PyNum 1] = Inr t"
    and s: "sum_list (ut_weights t) = 1"
    and p: "\<forall>la work work' i_sigma S.
            sigma_points la t work = Inr (work', i_sigma) \<and> cw_S work' = Some S
            \<and> is_mat 1 1 S \<and> length (utw_i work) = 1
            \<longrightarrow> length i_sigma = ut_nsigma t
              \<and> (\<forall>i<1. vadd (i_sigma ! i) (i_sigma ! (1 + i)) = map (\<lambda>x. 2 * x) (utw_i work))"
    using sigma_point_set[OF h1 h2, of CholeskyUnscentedTransform] by blast
  have tv: "t = \<lparr>ut_cls = CholeskyUnscentedTransform, ut_ni = 1, ut_kappa = 1, ut_nsigma = 3, ut_weights = [1/4, 1/4, 1/2]\<rparr>"
    using t ut_init_example by simp
  let ?w = "(UnscentedTransformWork [3] [[2]])\<lparr>cw_S := Some [[2]], utw_i_sigma := Some [[5],[1],[3]], utw_i_dev := Some [[2],[-2],[0]]\<rparr>"
  have sp: "sigma_points la_two t (UnscentedTransformWork [3] [[2]]) = Inr (?w, [[5],[1],[3]])"
    unfolding tv by (rule sigma_points_example)
  have m: "is_mat 1 1 [[2]]" by (simp add: is_mat_def)
  have S: "cw_S ?w = Some [[2]]" by simp
  have len: "length (utw_i (UnscentedTransformWork [3] [[2]])) = 1"
    by (simp add: UnscentedTransformWork_def)
  have "vadd ([[5], [1], [3]] ! 0) ([[5], [1], [3]] ! (1 + 0)) = map (\<lambda>x. 2 * x) (utw_i (UnscentedTransformWork [3] [[2]]))"
    by (rule p[rule_format, OF conjI[OF sp conjI[OF S conjI[OF m len]]], THEN conjunct2, rule_format]) simp
  then have "vadd ([[5], [1], [3]] ! 0) ([[5], [1], [3]] ! (1 + 0)) = map (\<lambda>x. 2 * x) [3]"
    by (simp add: UnscentedTransformWork_def)
  with h1 h2 t s sp m tv show ?thesis by auto
qed

subsection \<open>The weights in binary64\<close>

lemma float64_value:
  assumes "x \<noteq> 0" and "2 powr of_int e \<le> \<bar>x\<bar>" and "\<bar>x\<bar> < 2 powr (of_int e + 1)"
  shows "float64 x = of_int (round_half_even (x / 2 powr (of_int e - 52))) * 2 powr (of_int e - 52)"
proof -
  have pos: "0 < \<bar>x\<bar>" using assms(1) by simp
  have a: "of_int e \<le> log 2 \<bar>x\<bar>" using assms(2) pos by (simp add: le_log_iff)
  have b: "log 2 \<bar>x\<bar> < of_int e + 1" using assms(3) pos by (simp add: log_less_iff)
  have "\<lfloor>log 2 \<bar>x\<bar>\<rfloor> = e" using a b by (simp add: floor_eq_iff)
  then show ?thesis using assms(1) by (simp add: float64_def Let_def)
qed

lemma two_powr_int: "(2::real) powr (- numeral k) = 1 / 2 ^ numeral k"
proof -
  have "(2::real) powr (- numeral k) = 1 / 2 powr numeral k" by (simp only: powr_minus_divide)
  also have "(2::real) powr numeral k = 2 ^ numeral k" by (rule powr_numeral) simp
  finally show ?thesis .
qed

lemma float64_three: "float64 3 = 3"
proof -
  have n: "(3::real) \<noteq> 0" by simp
  have a: "(2::real) powr of_int 1 \<le> \<bar>3\<bar>" by simp
  have "(2::real) powr (of_int 1 + 1) = 2 powr 2" by simp
  also have "\<dots> = 2 ^ 2" by (rule powr_numeral) simp
  finally have b: "\<bar>3::real\<bar> < 2 powr (of_int 1 + 1)" by simp
  have u: "(2::real) powr (of_int 1 - 52) = 1 / 2 ^ 51"
    using two_powr_int[of "num.Bit1 (num.Bit1 (num.Bit0 (num.Bit0 (num.Bit1 num.One))))"] by simp
  have r: "round_half_even (3 / (1 / 2 ^ 51)) = 3 * 2 ^ 51"
    by (simp add: round_half_even_def Let_def)
  show ?thesis
    unfolding float64_value[of 3 1, OF n a b] u r by simp
qed

lemma float64_sixth: "float64 (1 / 6) = 6004799503160661 / 2 ^ 55"
proof -
  have n: "(1 / 6 :: real) \<noteq> 0" by simp
  have p3: "(2::real) powr of_int (- 3) = 1 / 2 ^ 3"
    using two_powr_int[of "num.Bit1 num.One"] by simp
  have p2: "(2::real) powr (of_int (- 3) + 1) = 1 / 2 ^ 2"
    using two_powr_int[of "num.Bit0 num.One"] by simp
  have a: "(2::real) powr of_int (- 3) \<le> \<bar>1 / 6\<bar>" unfolding p3 by simp
  have b: "\<bar>1 / 6 :: real\<bar> < 2 powr (of_int (- 3) + 1)" unfolding p2 by simp
  have u: "(2::real) powr (of_int (- 3) - 52) = 1 / 2 ^ 55"
    using two_powr_int[of "num.Bit1 (num.Bit1 (num.Bit1 (num.Bit0 (num.Bit1 num.One))))"] by simp
  have r: "round_half_even ((1 / 6) / (1 / 2 ^ 55)) = 6004799503160661"
    by (simp add: round_half_even_def Let_def)
  show ?thesis
    unfolding float64_value[of "1 / 6" "- 3", OF n a b] u r by simp
qed

text \<open>
  The weights as stored, for \<open>n = 3\<close> and \<open>kappa = 0\<close>: each of the six is the binary64
  number nearest to one sixth, which is less than one sixth, and their sum is
  \<open>1 - 2 ^ -54\<close>, not one.
\<close>

theorem weights_float64_sum_counterexample:
  "weights_float64 3 0 = replicate 6 (6004799503160661 / 2 ^ 55)
   \<and> sum_list (weights_float64 3 0) = 1 - 1 / 2 ^ 54
   \<and> sum_list (weights_float64 3 0) \<noteq> 1"
proof -
  have w: "weights_float64 3 0 = replicate 6 (6004799503160661 / 2 ^ 55)"
    by (simp add: weights_float64_def Let_def float64_three float64_sixth)
  have s: "sum_list (weights_float64 3 0) = 1 - 1 / 2 ^ 54"
    unfolding w by (simp add: numeral_eq_Suc)
  show ?thesis using w s by simp
qed


section \<open>A measurement with every entry missing\<close>

text \<open>
  Claim C5. When every entry of the measurement is masked, \<^verbatim>\<open>correct\<close> returns the mean and
  the covariance of the context as they are and changes nothing of the context but the
  attribute \<^verbatim>\<open>active\<close>; \<^verbatim>\<open>update_likelihood\<close> then returns the context unchanged, so the
  log-likelihood \<open>L\<close> stays what it was.
\<close>

theorem correct_all_missing:
  assumes "list_all id (getmaskarray y)"
  shows "\<exists>work'. correct la self work y = Inr (work', w_x work, w_Px work)
           \<and> work' = work\<lparr>w_active := Some (map Not (getmaskarray y))\<rparr>
           \<and> w_x work' = w_x work \<and> w_Px work' = w_Px work \<and> w_L work' = w_L work
           \<and> update_likelihood work' = Inr work'"
proof -
  have "\<not> list_ex id (map Not (getmaskarray y))"
    using assms by (induction y) (auto simp: getmaskarray_def)
  then show ?thesis
    using assms by (simp add: correct_def update_likelihood_def attr_def Let_def)
qed


theorem correct_all_missing_witness:
  "list_all id (getmaskarray [(5, True)])
   \<and> correct la_scalar \<lparr>corr_model = model_one, corrector_ut = ut_one\<rparr> work_one [(5, True)]
       = Inr (work_one\<lparr>w_active := Some [False]\<rparr>, [0], [[4]])
   \<and> update_likelihood (work_one\<lparr>w_active := Some [False]\<rparr>) = Inr (work_one\<lparr>w_active := Some [False]\<rparr>)
   \<and> w_L (work_one\<lparr>w_active := Some [False]\<rparr>) = Some 0"
proof -
  have h: "list_all id (getmaskarray [(5, True)])" by (simp add: getmaskarray_def)
  from correct_all_missing[OF h, of la_scalar "\<lparr>corr_model = model_one, corrector_ut = ut_one\<rparr>" work_one]
  obtain work' where w: "correct la_scalar \<lparr>corr_model = model_one, corrector_ut = ut_one\<rparr> work_one [(5, True)]
        = Inr (work', w_x work_one, w_Px work_one)"
    "work' = work_one\<lparr>w_active := Some (map Not (getmaskarray [(5, True)]))\<rparr>"
    "update_likelihood work' = Inr work'" by blast
  have w': "work' = work_one\<lparr>w_active := Some [False]\<rparr>" using w(2) by (simp add: getmaskarray_def)
  show ?thesis using h w(1,3) unfolding w'
    by (simp add: work_one_def DTKalmanFilterWork_def)
qed

section \<open>The filter loop makes its calls in alternation\<close>

lemma alternation_Suc:
  "alternation (Suc M) = concat (map (\<lambda>j. [Correct j, Predict]) [0..<M]) @ [Correct M]"
proof -
  have "map (\<lambda>p. if even p then Correct (p div 2) else Predict) [0..<2 * M]
      = concat (map (\<lambda>j. [Correct j, Predict]) [0..<M])"
    by (induction M) auto
  then show ?thesis by (simp add: alternation_def)
qed

lemma update_last_conv: "length x = Suc k \<Longrightarrow> x[k := a] = take k x @ [a]"
  by (simp add: upd_conv_take_nth_drop)

lemma filter_body_last:
  "Suc k = N \<Longrightarrow> filter_body c p y N k (work, x, Px) =
     (case c work (y ! k) of Inl err \<Rightarrow> Inl err
      | Inr (work', xk, Pxk) \<Rightarrow> Inr (work', x[k := xk], Px[k := Pxk]))"
  by (auto simp: filter_body_def Let_def split: sum.splits prod.splits)

lemma filter_body_inner:
  "Suc k < N \<Longrightarrow> filter_body c p y N k (work, x, Px) =
     (case c work (y ! k) of Inl err \<Rightarrow> Inl err
      | Inr (work', xk, Pxk) \<Rightarrow>
         (case p work' of Inl err \<Rightarrow> Inl err | Inr (work'', _) \<Rightarrow> Inr (work'', x[k := xk], Px[k := Pxk])))"
  by (auto simp: filter_body_def Let_def split: sum.splits prod.splits)

lemma for_range_run_calls:
  assumes "k < N" "length x = N" "length Px = N"
  shows "for_range (filter_body c p y N) [k..<N] (work, x, Px) =
     run_calls c p y (concat (map (\<lambda>j. [Correct j, Predict]) [k..<N - 1]) @ [Correct (N - 1)])
             (work, take k x, take k Px)"
  using assms
proof (induction "N - k" arbitrary: k work x Px)
  case 0
  then show ?case by simp
next
  case (Suc d)
  show ?case
  proof (cases "Suc k = N")
    case True
    then have r: "[k..<N] = [k]" "[k..<N - Suc 0] = []" "N - Suc 0 = k" by (auto simp: upt_rec)
    show ?thesis using True Suc.prems
      by (auto simp: r filter_body_last update_last_conv split: sum.splits prod.splits)
  next
    case False
    then have lt: "Suc k < N" using Suc.prems by simp
    have r: "[k..<N] = k # [Suc k..<N]" "[k..<N - Suc 0] = k # [Suc k..<N - Suc 0]"
      using lt by (auto simp: upt_rec)
    have d: "d = N - Suc k" using Suc.hyps by simp
    show ?thesis
    proof (cases "c work (y ! k)")
      case (Inl e)
      then show ?thesis using lt by (simp add: r filter_body_inner)
    next
      case (Inr res)
      obtain w1 xk Pxk where res: "res = (w1, xk, Pxk)" by (cases res) auto
      show ?thesis
      proof (cases "p w1")
        case (Inl e)
        then show ?thesis using lt Inr res by (simp add: r filter_body_inner)
      next
        case (Inr res2)
        obtain w2 a b where res2: "res2 = (w2, a, b)" by (cases res2) auto
        have tk: "take (Suc k) (x[k := xk]) = take k x @ [xk]"
             "take (Suc k) (Px[k := Pxk]) = take k Px @ [Pxk]"
          using Suc.prems lt by (simp_all add: take_Suc_conv_app_nth)
        have ih: "for_range (filter_body c p y N) [Suc k..<N] (w2, x[k := xk], Px[k := Pxk]) =
          run_calls c p y (concat (map (\<lambda>j. [Correct j, Predict]) [Suc k..<N - 1]) @ [Correct (N - 1)])
             (w2, take (Suc k) (x[k := xk]), take (Suc k) (Px[k := Pxk]))"
          by (rule Suc.hyps(1)[OF d lt]) (use Suc.prems in simp_all)
        show ?thesis
          using lt \<open>c work (y ! k) = Inr res\<close> res Inr res2 ih
          by (simp add: r filter_body_inner tk)
      qed
    qed
  qed
qed

lemma filter_kf_run_calls:
  "filter_kf m c p work y = run_calls c p y (alternation (length y)) (work, [], [])"
proof (cases "length y")
  case 0
  then show ?thesis by (simp add: filter_kf_def alternation_def)
next
  case (Suc M)
  have "filter_kf m c p work y =
     for_range (filter_body c p y (Suc M)) [0..<Suc M]
       (work, replicate (Suc M) (replicate (length (w_x work)) 0), replicate (Suc M) (zeros (length (w_x work)) (model_nx m)))"
    using Suc by (simp add: filter_kf_def Let_def del: replicate_Suc replicate.simps upt_Suc)
  also have "\<dots> = run_calls c p y (concat (map (\<lambda>j. [Correct j, Predict]) [0..<Suc M - 1]) @ [Correct (Suc M - 1)])
             (work, take 0 (replicate (Suc M) (replicate (length (w_x work)) 0)), take 0 (replicate (Suc M) (zeros (length (w_x work)) (model_nx m))))"
    by (rule for_range_run_calls) simp_all
  also have "\<dots> = run_calls c p y (alternation (Suc M)) (work, [], [])"
    by (simp add: alternation_Suc)
  finally show ?thesis using Suc by simp
qed


lemma run_calls_length:
  "run_calls c p y cs (w, xs, Pxs) = Inr (w', xs', Pxs') \<Longrightarrow>
     length xs' = length xs + length (filter is_Correct cs)
     \<and> length Pxs' = length Pxs + length (filter is_Correct cs)"
proof (induction cs arbitrary: w xs Pxs)
  case Nil
  then show ?case by simp
next
  case (Cons a cs)
  show ?case
  proof (cases a)
    case (Correct k)
    then show ?thesis using Cons.prems Cons.IH
      by (auto split: sum.splits prod.splits)
  next
    case Predict
    then show ?thesis using Cons.prems Cons.IH
      by (auto split: sum.splits prod.splits)
  qed
qed

lemma alternation_counts:
  "length (alternation N) = 2 * N - 1"
  "length (filter is_Correct (alternation N)) = N"
  "length (filter (\<lambda>c. \<not> is_Correct c) (alternation N)) = N - 1"
proof -
  show "length (alternation N) = 2 * N - 1" by (simp add: alternation_def)
  have a: "filter is_Correct (concat (map (\<lambda>j. [Correct j, Predict]) [0..<M])) = map Correct [0..<M]" for M
    by (induction M) auto
  have b: "filter (\<lambda>c. \<not> is_Correct c) (concat (map (\<lambda>j. [Correct j, Predict]) [0..<M])) = replicate M Predict" for M
    by (induction M) (auto simp: replicate_append_same)
  show "length (filter is_Correct (alternation N)) = N"
  proof (cases N)
    case 0
    then show ?thesis by (simp add: alternation_def)
  next
    case (Suc M)
    then show ?thesis by (simp add: alternation_Suc a del: upt_Suc)
  qed
  show "length (filter (\<lambda>c. \<not> is_Correct c) (alternation N)) = N - 1"
  proof (cases N)
    case 0
    then show ?thesis by (simp add: alternation_def)
  next
    case (Suc M)
    then show ?thesis by (simp add: alternation_Suc b del: upt_Suc)
  qed
qed

text \<open>
  Claim C8. \<^verbatim>\<open>filter\<close> makes the calls of \<open>alternation N\<close> for \<open>N\<close> measurements, in that
  order: \<open>N\<close> corrections and \<open>N - 1\<close> predictions, a correction first and last, each
  prediction between two corrections. The trajectories it returns are the means and the
  covariances that the corrections returned, in order, \<open>N\<close> rows each. A call that raises
  ends the run with its error in the loop as in the list of calls.
\<close>

theorem filter_alternates:
  "filter_kf m c p work y = run_calls c p y (alternation (length y)) (work, [], [])
   \<and> length (alternation (length y)) = 2 * length y - 1
   \<and> length (filter is_Correct (alternation (length y))) = length y
   \<and> length (filter (\<lambda>c. \<not> is_Correct c) (alternation (length y))) = length y - 1
   \<and> (\<forall>work' x Px. filter_kf m c p work y = Inr (work', x, Px)
         \<longrightarrow> length x = length y \<and> length Px = length y)"
proof -
  have r: "filter_kf m c p work y = run_calls c p y (alternation (length y)) (work, [], [])"
    by (rule filter_kf_run_calls)
  have "length x = length y \<and> length Px = length y"
    if "filter_kf m c p work y = Inr (work', x, Px)" for work' x Px
    using run_calls_length[of c p y "alternation (length y)" work "[]" "[]" work' x Px] that r
    by (simp add: alternation_counts)
  with r alternation_counts show ?thesis by blast
qed

theorem filter_alternates_witness:
  "filter_kf model_one spy_correct spy_predict work_one [1, 2]
     = Inr (work_one\<lparr>w_x := [2], w_Px := [[2]], w_k := 1\<rparr>, [[1], [2]], [[[1]], [[2]]])
   \<and> alternation (length [1::real, 2]) = [Correct 0, Predict, Correct 1]
   \<and> length [[1::real], [2]] = length [1::real, 2]"
proof -
  have a: "alternation (length [1::real, 2]) = [Correct 0, Predict, Correct 1]"
    by (simp add: alternation_def upt_rec)
  have "filter_kf model_one spy_correct spy_predict work_one [1, 2]
      = run_calls spy_correct spy_predict [1, 2] (alternation (length [1::real, 2])) (work_one, [], [])"
    using filter_alternates[of model_one spy_correct spy_predict work_one "[1, 2]"] by blast
  also have "\<dots> = Inr (work_one\<lparr>w_x := [2], w_Px := [[2]], w_k := 1\<rparr>, [[1], [2]], [[[1]], [[2]]])"
    unfolding a by (simp add: spy_correct_def spy_predict_def work_one_def DTKalmanFilterWork_def)
  finally show ?thesis using a by simp
qed


section \<open>Invalid configurations are refused at construction\<close>

lemma make_ut_sqrt_invalid:
  assumes "options_get (opts ++ ex opts prefix) ''sqrt'' (PyStr ''cholesky'') \<noteq> PyStr ''cholesky''"
    and "options_get (opts ++ ex opts prefix) ''sqrt'' (PyStr ''cholesky'') \<noteq> PyStr ''svd''"
  shows "make_ut ex prefix m opts = Inl ValueError"
  using assms by (simp add: make_ut_def choose_ut_transform_class_def Let_def)

lemma ut_init_valid:
  assumes "ut_init cls n opts = Inr t"
  shows "real (ut_ni t) + ut_kappa t \<noteq> 0 \<and> ut_ni t = n \<and> ut_cls t = cls"
  using assms by (auto simp: ut_init_def Let_def split: pyval.splits if_splits)

lemma make_ut_valid:
  assumes "make_ut ex prefix m opts = Inr t"
  shows "real (ut_ni t) + ut_kappa t \<noteq> 0 \<and> ut_ni t = model_nx m
       \<and> (options_get (opts ++ ex opts prefix) ''sqrt'' (PyStr ''cholesky'') = PyStr ''cholesky''
            \<and> ut_cls t = CholeskyUnscentedTransform
          \<or> options_get (opts ++ ex opts prefix) ''sqrt'' (PyStr ''cholesky'') = PyStr ''svd''
            \<and> ut_cls t = SVDUnscentedTransform)"
proof -
  obtain cls where c: "choose_ut_transform_class (opts ++ ex opts prefix) = Inr cls"
    and u: "ut_new cls (model_nx m) (opts ++ ex opts prefix) = Inr t"
    using assms by (auto simp: make_ut_def Let_def split: sum.splits)
  have i: "ut_init cls (model_nx m) (opts ++ ex opts prefix) = Inr t"
    using u by (auto simp: ut_new_def split: if_splits)
  from c show ?thesis using ut_init_valid[OF i]
    by (auto simp: choose_ut_transform_class_def Let_def split: if_splits)
qed

lemma make_ut_kappa_invalid:
  assumes "options_get (opts ++ ex opts prefix) ''kappa'' (PyNum 0) = PyNum \<kappa>"
    and "real (model_nx m) + \<kappa> = 0"
  shows "\<exists>err. make_ut ex prefix m opts = Inl err"
  using assms
  by (auto simp: make_ut_def ut_new_def ut_init_def Let_def split: sum.splits)


lemma make_ut_valid_ut:
  "make_ut ex prefix m opts = Inr t \<Longrightarrow> valid_ut (opts ++ ex opts prefix) t"
  using make_ut_valid[of ex prefix m opts t] by (simp add: valid_ut_def)

lemma literal_sqrt:
  assumes "ex opts prefix ''sqrt'' = None" "opts ''sqrt'' = Some v"
  shows "options_get (opts ++ ex opts prefix) ''sqrt'' d = v"
  using assms by (simp add: options_get_def map_add_def)

text \<open>
  Claim C9. A configuration that is not valid is refused when the objects are constructed.
  The transform's constructor raises \<^verbatim>\<open>AssertionError\<close> when \<open>n + kappa = 0\<close>. The
  constructors of the predictor and of the corrector raise \<^verbatim>\<open>ValueError\<close> when the
  \<^verbatim>\<open>sqrt\<close> option that reaches \<^verbatim>\<open>choose_ut_transform_class\<close> (the one of the options, unless
  the extracted subkeys replace it) is neither \<^verbatim>\<open>'cholesky'\<close> nor \<^verbatim>\<open>'svd'\<close>, and raise when
  the dimension of the model and \<open>kappa\<close> add up to zero; so does the constructor of
  the filter that is both. Every predictor, corrector and filter that a constructor returns
  has a valid configuration, so \<^verbatim>\<open>predict\<close> and \<^verbatim>\<open>correct\<close> are never called on another.
\<close>

theorem invalid_configuration:
  "(options_get opts ''kappa'' (PyNum 0) = PyNum \<kappa> \<and> real n + \<kappa> = 0
      \<longrightarrow> ut_init cls n opts = Inl AssertionError)
   \<and> (options_get (opts ++ ex opts ''pred_ut_'') ''sqrt'' (PyStr ''cholesky'') \<noteq> PyStr ''cholesky''
      \<and> options_get (opts ++ ex opts ''pred_ut_'') ''sqrt'' (PyStr ''cholesky'') \<noteq> PyStr ''svd''
      \<longrightarrow> DTUnscentedPredictor_init ex m opts = Inl ValueError)
   \<and> (options_get (opts ++ ex opts ''corr_ut_'') ''sqrt'' (PyStr ''cholesky'') \<noteq> PyStr ''cholesky''
      \<and> options_get (opts ++ ex opts ''corr_ut_'') ''sqrt'' (PyStr ''cholesky'') \<noteq> PyStr ''svd''
      \<longrightarrow> DTUnscentedCorrector_init ex m opts = Inl ValueError)
   \<and> (opts ''sqrt'' = Some v \<and> v \<noteq> PyStr ''cholesky'' \<and> v \<noteq> PyStr ''svd''
      \<and> ex opts ''pred_ut_'' ''sqrt'' = None
      \<longrightarrow> DTUnscentedPredictor_init ex m opts = Inl ValueError)
   \<and> (opts ''sqrt'' = Some v \<and> v \<noteq> PyStr ''cholesky'' \<and> v \<noteq> PyStr ''svd''
      \<and> ex opts ''corr_ut_'' ''sqrt'' = None
      \<longrightarrow> DTUnscentedCorrector_init ex m opts = Inl ValueError
        \<and> DTUnscentedKalmanFilter_init ex m opts = Inl ValueError)
   \<and> (options_get (opts ++ ex opts ''pred_ut_'') ''kappa'' (PyNum 0) = PyNum \<kappa>
      \<and> real (model_nx m) + \<kappa> = 0
      \<longrightarrow> (\<exists>err. DTUnscentedPredictor_init ex m opts = Inl err)
        \<and> (\<exists>err. DTUnscentedKalmanFilter_init ex m opts = Inl err))
   \<and> (options_get (opts ++ ex opts ''corr_ut_'') ''kappa'' (PyNum 0) = PyNum \<kappa>
      \<and> real (model_nx m) + \<kappa> = 0
      \<longrightarrow> (\<exists>err. DTUnscentedCorrector_init ex m opts = Inl err)
        \<and> (\<exists>err. DTUnscentedKalmanFilter_init ex m opts = Inl err))
   \<and> (\<forall>self. DTUnscentedPredictor_init ex m opts = Inr self
      \<longrightarrow> valid_ut (opts ++ ex opts ''pred_ut_'') (predictor_ut self))
   \<and> (\<forall>self. DTUnscentedCorrector_init ex m opts = Inr self
      \<longrightarrow> valid_ut (opts ++ ex opts ''corr_ut_'') (corrector_ut self))
   \<and> (\<forall>p c. DTUnscentedKalmanFilter_init ex m opts = Inr (p, c)
      \<longrightarrow> valid_ut (opts ++ ex opts ''pred_ut_'') (predictor_ut p)
        \<and> valid_ut (opts ++ ex opts ''corr_ut_'') (corrector_ut c))"
proof -
  have a: "ut_init cls n opts = Inl AssertionError"
    if "options_get opts ''kappa'' (PyNum 0) = PyNum \<kappa>" "real n + \<kappa> = 0"
    using that by (simp add: ut_init_def)
  have b: "DTUnscentedPredictor_init ex m opts = Inl ValueError"
    if "options_get (opts ++ ex opts ''pred_ut_'') ''sqrt'' (PyStr ''cholesky'') \<noteq> PyStr ''cholesky''"
       "options_get (opts ++ ex opts ''pred_ut_'') ''sqrt'' (PyStr ''cholesky'') \<noteq> PyStr ''svd''"
    using make_ut_sqrt_invalid[of opts ex "''pred_ut_''" m] that
    by (simp add: DTUnscentedPredictor_init_def)
  have c: "DTUnscentedCorrector_init ex m opts = Inl ValueError"
    if "options_get (opts ++ ex opts ''corr_ut_'') ''sqrt'' (PyStr ''cholesky'') \<noteq> PyStr ''cholesky''"
       "options_get (opts ++ ex opts ''corr_ut_'') ''sqrt'' (PyStr ''cholesky'') \<noteq> PyStr ''svd''"
    using make_ut_sqrt_invalid[of opts ex "''corr_ut_''" m] that
    by (simp add: DTUnscentedCorrector_init_def)
  have d: "DTUnscentedPredictor_init ex m opts = Inl ValueError"
    if "opts ''sqrt'' = Some v" "v \<noteq> PyStr ''cholesky''" "v \<noteq> PyStr ''svd''"
       "ex opts ''pred_ut_'' ''sqrt'' = None"
    using that by (intro b) (simp_all add: literal_sqrt)
  have e: "DTUnscentedCorrector_init ex m opts = Inl ValueError
        \<and> DTUnscentedKalmanFilter_init ex m opts = Inl ValueError"
    if "opts ''sqrt'' = Some v" "v \<noteq> PyStr ''cholesky''" "v \<noteq> PyStr ''svd''"
       "ex opts ''corr_ut_'' ''sqrt'' = None"
  proof -
    have "DTUnscentedCorrector_init ex m opts = Inl ValueError"
      using that by (intro c) (simp_all add: literal_sqrt)
    then show ?thesis by (simp add: DTUnscentedKalmanFilter_init_def)
  qed
  have f: "(\<exists>err. DTUnscentedPredictor_init ex m opts = Inl err)
        \<and> (\<exists>err. DTUnscentedKalmanFilter_init ex m opts = Inl err)"
    if h1: "options_get (opts ++ ex opts ''pred_ut_'') ''kappa'' (PyNum 0) = PyNum \<kappa>"
       and h2: "real (model_nx m) + \<kappa> = 0"
  proof -
    obtain err where "make_ut ex ''pred_ut_'' m opts = Inl err"
      using make_ut_kappa_invalid[of opts ex "''pred_ut_''" \<kappa> m] h1 h2 by blast
    then have "DTUnscentedPredictor_init ex m opts = Inl err"
      by (simp add: DTUnscentedPredictor_init_def)
    then show ?thesis
      by (auto simp: DTUnscentedKalmanFilter_init_def split: sum.splits)
  qed
  have g: "(\<exists>err. DTUnscentedCorrector_init ex m opts = Inl err)
        \<and> (\<exists>err. DTUnscentedKalmanFilter_init ex m opts = Inl err)"
    if h1: "options_get (opts ++ ex opts ''corr_ut_'') ''kappa'' (PyNum 0) = PyNum \<kappa>"
       and h2: "real (model_nx m) + \<kappa> = 0"
  proof -
    obtain err where "make_ut ex ''corr_ut_'' m opts = Inl err"
      using make_ut_kappa_invalid[of opts ex "''corr_ut_''" \<kappa> m] h1 h2 by blast
    then have "DTUnscentedCorrector_init ex m opts = Inl err"
      by (simp add: DTUnscentedCorrector_init_def)
    then show ?thesis
      by (auto simp: DTUnscentedKalmanFilter_init_def split: sum.splits)
  qed
  have h: "valid_ut (opts ++ ex opts ''pred_ut_'') (predictor_ut self)"
    if "DTUnscentedPredictor_init ex m opts = Inr self" for self
    using that by (auto simp: DTUnscentedPredictor_init_def split: sum.splits dest: make_ut_valid_ut)
  have i: "valid_ut (opts ++ ex opts ''corr_ut_'') (corrector_ut self)"
    if "DTUnscentedCorrector_init ex m opts = Inr self" for self
    using that by (auto simp: DTUnscentedCorrector_init_def split: sum.splits dest: make_ut_valid_ut)
  have j: "valid_ut (opts ++ ex opts ''pred_ut_'') (predictor_ut p)
        \<and> valid_ut (opts ++ ex opts ''corr_ut_'') (corrector_ut c)"
    if "DTUnscentedKalmanFilter_init ex m opts = Inr (p, c)" for p c
    using that h i by (auto simp: DTUnscentedKalmanFilter_init_def split: sum.splits)
  from a b c d e f g h i j show ?thesis by blast
qed

theorem invalid_configuration_witness:
  "options_get [''kappa'' \<mapsto> PyNum (- 1)] ''kappa'' (PyNum 0) = PyNum (- 1) \<and> real 1 + (- 1) = 0
   \<and> ut_init CholeskyUnscentedTransform 1 [''kappa'' \<mapsto> PyNum (- 1)] = Inl AssertionError
   \<and> [''sqrt'' \<mapsto> PyStr ''qr''] ''sqrt'' = Some (PyStr ''qr'')
   \<and> PyStr ''qr'' \<noteq> PyStr ''cholesky'' \<and> PyStr ''qr'' \<noteq> PyStr ''svd''
   \<and> no_subkeys [''sqrt'' \<mapsto> PyStr ''qr''] ''pred_ut_'' ''sqrt'' = None
   \<and> DTUnscentedPredictor_init no_subkeys model_one [''sqrt'' \<mapsto> PyStr ''qr''] = Inl ValueError
   \<and> DTUnscentedCorrector_init no_subkeys model_one Map.empty
        = Inr \<lparr>corr_model = model_one, corrector_ut = ut_one\<rparr>
   \<and> valid_ut (Map.empty ++ no_subkeys Map.empty ''corr_ut_'') ut_one"
proof -
  note inst = invalid_configuration[of "[''kappa'' \<mapsto> PyNum (- 1)]" "- 1" 1 CholeskyUnscentedTransform]
  have k: "options_get [''kappa'' \<mapsto> PyNum (- 1)] ''kappa'' (PyNum 0) = PyNum (- 1) \<and> real 1 + (- 1) = 0"
    by (simp add: options_get_def)
  have r1: "ut_init CholeskyUnscentedTransform 1 [''kappa'' \<mapsto> PyNum (- 1)] = Inl AssertionError"
    using inst k by blast
  have s: "[''sqrt'' \<mapsto> PyStr ''qr''] ''sqrt'' = Some (PyStr ''qr'')
     \<and> PyStr ''qr'' \<noteq> PyStr ''cholesky'' \<and> PyStr ''qr'' \<noteq> PyStr ''svd''
     \<and> no_subkeys [''sqrt'' \<mapsto> PyStr ''qr''] ''pred_ut_'' ''sqrt'' = None"
    by (simp add: no_subkeys_def)
  have r2: "DTUnscentedPredictor_init no_subkeys model_one [''sqrt'' \<mapsto> PyStr ''qr''] = Inl ValueError"
    using invalid_configuration[of "[''sqrt'' \<mapsto> PyStr ''qr'']" _ _ _ no_subkeys model_one "PyStr ''qr''"] s
    by blast
  have c: "DTUnscentedCorrector_init no_subkeys model_one Map.empty
        = Inr \<lparr>corr_model = model_one, corrector_ut = ut_one\<rparr>"
    by (simp add: DTUnscentedCorrector_init_def make_ut_def no_subkeys_def
        choose_ut_transform_class_def options_get_def ut_new_def ut_init_def model_one_def
        ut_one_def Let_def numeral_2_eq_2)
  have r3: "valid_ut (Map.empty ++ no_subkeys Map.empty ''corr_ut_'') ut_one"
    using invalid_configuration[of Map.empty _ _ _ no_subkeys model_one] c
    by (metis DTUnscentedCorrector.select_convs(2))
  from k r1 s r2 c r3 show ?thesis by simp
qed

section \<open>Sums over the sigma points\<close>

lemma sl_sum: "(\<Sum>k\<leftarrow>[0..<n]. f k) = (\<Sum>k<n. f k)"
  by (simp add: interv_sum_list_conv_sum_set_nat atLeast0LessThan)

lemma ncols_is_mat: "is_mat r c M \<Longrightarrow> 0 < r \<Longrightarrow> ncols M = c"
  by (cases M) (auto simp: is_mat_def ncols_def)

lemma is_matI: "length M = r \<Longrightarrow> (\<And>i. i < r \<Longrightarrow> length (M ! i) = c) \<Longrightarrow> is_mat r c M"
  by (auto simp: is_mat_def list_all_length)

lemma mat_eqI:
  assumes "is_mat r c A" "is_mat r c B" "\<And>i j. i < r \<Longrightarrow> j < c \<Longrightarrow> A ! i ! j = B ! i ! j"
  shows "A = B"
proof (rule nth_equalityI)
  show "length A = length B" using assms by (simp add: is_mat_def)
  fix i assume i: "i < length A"
  then have ir: "i < r" using assms by (simp add: is_mat_def)
  show "A ! i = B ! i"
    by (rule nth_equalityI) (use assms ir in \<open>auto simp: is_mat_nth\<close>)
qed

lemma zip_sum_nth:
  assumes "length w = length X"
  shows "(\<Sum>k\<leftarrow>[0..<length w]. h (w ! k) (X ! k)) = (\<Sum>(a, r)\<leftarrow>zip w X. h a r)"
proof -
  have "map (\<lambda>(a, r). h a r) (zip w X) = map (\<lambda>k. h (w ! k) (X ! k)) [0..<length w]"
    using assms by (intro nth_equalityI) auto
  then show ?thesis by simp
qed

lemma sum_list_nth_conv: "(\<Sum>r\<leftarrow>S. g r) = (\<Sum>k<length S. g (S ! k))"
  by (simp add: sum_list_sum_nth atLeast0LessThan)

text \<open>The weighted sum over the deviations of the sigma points.\<close>

lemma weighted_sum_devs:
  fixes g :: "vec \<Rightarrow> real"
  assumes "length S = n"
  shows "(\<Sum>k\<leftarrow>[0..<length (replicate (2 * n) \<omega> @ ws)].
            (replicate (2 * n) \<omega> @ ws) ! k * g ((S @ mneg S @ replicate (length ws) z) ! k))
       = \<omega> * (\<Sum>k<n. g (S ! k)) + \<omega> * (\<Sum>k<n. g (map uminus (S ! k))) + sum_list ws * g z"
proof -
  let ?w = "replicate (2 * n) \<omega> @ ws" and ?D = "S @ mneg S @ replicate (length ws) z"
  have len: "length ?w = length ?D" using assms by (simp add: mneg_def)
  have w: "?w = replicate n \<omega> @ replicate n \<omega> @ ws"
    by (simp add: mult_2 replicate_add)
  have "(\<Sum>k\<leftarrow>[0..<length ?w]. ?w ! k * g (?D ! k)) = (\<Sum>(a, r)\<leftarrow>zip ?w ?D. a * g r)"
    by (rule zip_sum_nth[OF len])
  also have "\<dots> = (\<Sum>(a, r)\<leftarrow>zip (replicate n \<omega>) S. a * g r)
      + (\<Sum>(a, r)\<leftarrow>zip (replicate n \<omega>) (mneg S). a * g r)
      + (\<Sum>(a, r)\<leftarrow>zip ws (replicate (length ws) z). a * g r)"
    unfolding w using assms by (simp add: mneg_def)
  also have "(\<Sum>(a, r)\<leftarrow>zip (replicate n \<omega>) S. a * g r) = \<omega> * (\<Sum>k<n. g (S ! k))"
    using assms by (simp add: zip_replicate1 o_def sum_list_const_mult sum_list_nth_conv)
  also have "(\<Sum>(a, r)\<leftarrow>zip (replicate n \<omega>) (mneg S). a * g r) = \<omega> * (\<Sum>k<n. g (map uminus (S ! k)))"
    using assms by (simp add: zip_replicate1 o_def sum_list_const_mult sum_list_nth_conv mneg_def)
  also have "(\<Sum>(a, r)\<leftarrow>zip ws (replicate (length ws) z). a * g r) = sum_list ws * g z"
    by (simp add: zip_replicate2 o_def sum_list_mult_const)
  finally show ?thesis .
qed

lemma einsum_ij_j_nth:
  "j < length A \<Longrightarrow> einsum_ij_j A v ! j = (\<Sum>p<length v. A ! j ! p * v ! p)"
  by (simp add: einsum_ij_j_def sl_sum)

lemma einsum_ij_j_length [simp]: "length (einsum_ij_j A v) = length A"
  by (simp add: einsum_ij_j_def)

lemma lin_add:
  assumes "length d = n" "length i = n" "j < length A"
  shows "einsum_ij_j A (vadd d i) ! j = einsum_ij_j A d ! j + einsum_ij_j A i ! j"
  using assms by (simp add: einsum_ij_j_nth vadd_def distrib_left sum.distrib)

lemma lin_neg:
  assumes "j < length A"
  shows "einsum_ij_j A (map uminus d) ! j = - (einsum_ij_j A d ! j)"
  using assms by (simp add: einsum_ij_j_nth sum_negf)

lemma lin_zero:
  assumes "j < length A"
  shows "einsum_ij_j A (replicate n 0) ! j = 0"
  using assms by (simp add: einsum_ij_j_nth)

lemma ut_init_fields:
  assumes "ut_init cls n opts = Inr t"
  shows "ut_ni t = n" "real n + ut_kappa t \<noteq> 0"
    "ut_nsigma t = 2 * n + (if ut_kappa t \<noteq> 0 then 1 else 0)"
    "ut_weights t = replicate (2 * n) (0.5 / (real n + ut_kappa t)) @
                        (if ut_kappa t \<noteq> 0 then [ut_kappa t / (real n + ut_kappa t)] else [])"
    "ut_cls t = cls"
proof -
  obtain \<kappa> where k: "options_get opts ''kappa'' (PyNum 0) = PyNum \<kappa>" and nz: "real n + \<kappa> \<noteq> 0"
    using assms by (auto simp: ut_init_def split: pyval.splits if_splits)
  have "ut_init cls n opts = Inr \<lparr>ut_cls = cls, ut_ni = n, ut_kappa = \<kappa>,
         ut_nsigma = 2 * n + (if \<kappa> \<noteq> 0 then 1 else 0),
         ut_weights = replicate (2 * n) (0.5 / (real n + \<kappa>)) @
            (if \<kappa> \<noteq> 0 then [\<kappa> / (real n + \<kappa>)] else [])\<rparr>"
    by (rule ut_init_value[OF k nz])
  with assms have t: "t = \<lparr>ut_cls = cls, ut_ni = n, ut_kappa = \<kappa>,
         ut_nsigma = 2 * n + (if \<kappa> \<noteq> 0 then 1 else 0),
         ut_weights = replicate (2 * n) (0.5 / (real n + \<kappa>)) @
            (if \<kappa> \<noteq> 0 then [\<kappa> / (real n + \<kappa>)] else [])\<rparr>" by simp
  show "ut_ni t = n" "real n + ut_kappa t \<noteq> 0"
    "ut_nsigma t = 2 * n + (if ut_kappa t \<noteq> 0 then 1 else 0)"
    "ut_weights t = replicate (2 * n) (0.5 / (real n + ut_kappa t)) @
                        (if ut_kappa t \<noteq> 0 then [ut_kappa t / (real n + ut_kappa t)] else [])"
    "ut_cls t = cls"
    using nz by (simp_all add: t)
qed

lemma ut_sqrt_frame:
  assumes "ut_sqrt la t work Q = Inr (w1, S)"
  shows "cw_S w1 = Some S" "utw_i w1 = utw_i work" "utw_Pi w1 = utw_Pi work"
        "w1 = work\<lparr>cw_S := Some S\<rparr>"
  using assms
  by (auto simp: ut_sqrt_def decompose_def Let_def split: ut_class.splits sum.splits prod.splits)

lemma sigma_points_value:
  assumes sq: "ut_sqrt la t work (smul (real (ut_ni t) + ut_kappa t) (utw_Pi work)) = Inr (w1, S)"
    and len: "length S = ut_ni t" and ns: "ut_nsigma t = 2 * ut_ni t + c"
  shows "sigma_points la t work =
     Inr (w1\<lparr>utw_i_sigma := Some (map (\<lambda>row. vadd row (utw_i work))
                                   (S @ mneg S @ replicate c (replicate (ut_ni t) 0))),
              utw_i_dev := Some (S @ mneg S @ replicate c (replicate (ut_ni t) 0))\<rparr>,
          map (\<lambda>row. vadd row (utw_i work)) (S @ mneg S @ replicate c (replicate (ut_ni t) 0)))"
proof -
  have dev: "assign_rows (ut_ni t) (assign_rows 0 (zeros (ut_nsigma t) (ut_ni t)) S) (mneg S)
      = S @ mneg S @ replicate c (replicate (ut_ni t) 0)"
    using len ns by (simp add: assign_rows_def zeros_def mneg_def)
  show ?thesis
    using sq ut_sqrt_frame(2)[OF sq] by (simp add: sigma_points_def Let_def dev)
qed

lemma transform_value:
  assumes "sigma_points la t work = Inr (w1, i_sigma)" and "f i_sigma = Inr o_sigma"
  shows "transform la t work f =
     Inr (w1\<lparr>utw_o_sigma := Some o_sigma,
              utw_o_dev := Some (map (\<lambda>row. vsub row (einsum_k_ki (ut_weights t) o_sigma)) o_sigma),
              utw_o := Some (einsum_k_ki (ut_weights t) o_sigma),
              utw_Po := Some (einsum_ki_kj_k
                 (map (\<lambda>row. vsub row (einsum_k_ki (ut_weights t) o_sigma)) o_sigma)
                 (map (\<lambda>row. vsub row (einsum_k_ki (ut_weights t) o_sigma)) o_sigma) (ut_weights t))\<rparr>,
          einsum_k_ki (ut_weights t) o_sigma,
          einsum_ki_kj_k
                 (map (\<lambda>row. vsub row (einsum_k_ki (ut_weights t) o_sigma)) o_sigma)
                 (map (\<lambda>row. vsub row (einsum_k_ki (ut_weights t) o_sigma)) o_sigma) (ut_weights t))"
  using assms by (simp add: transform_def Let_def)

lemma vadd_nth: "j < length u \<Longrightarrow> j < length v \<Longrightarrow> vadd u v ! j = u ! j + v ! j"
  by (simp add: vadd_def)

lemma vsub_nth: "j < length u \<Longrightarrow> j < length v \<Longrightarrow> vsub u v ! j = u ! j - v ! j"
  by (simp add: vsub_def)

lemma vadd_length: "length (vadd u v) = min (length u) (length v)"
  by (simp add: vadd_def)

lemma vsub_length: "length (vsub u v) = min (length u) (length v)"
  by (simp add: vsub_def)

lemma einsum_k_ki_length: "length (einsum_k_ki w X) = ncols X"
  by (simp add: einsum_k_ki_def)

lemma einsum_k_ki_nth:
  "j < ncols X \<Longrightarrow> einsum_k_ki w X ! j = (\<Sum>k\<leftarrow>[0..<length w]. w ! k * X ! k ! j)"
  by (simp add: einsum_k_ki_def)

lemma einsum_ki_kj_k_nth:
  "a < ncols X \<Longrightarrow> b < ncols Y \<Longrightarrow>
     einsum_ki_kj_k X Y w ! a ! b = (\<Sum>k\<leftarrow>[0..<length w]. X ! k ! a * Y ! k ! b * w ! k)"
  by (simp add: einsum_ki_kj_k_def)

lemma einsum_ki_kj_k_is_mat: "is_mat (ncols X) (ncols Y) (einsum_ki_kj_k X Y w)"
  by (simp add: einsum_ki_kj_k_def is_mat_def list_all_length)

lemma ncols_map:
  assumes "D \<noteq> []" "\<And>d. d \<in> set D \<Longrightarrow> length (F d) = m"
  shows "ncols (map F D) = m"
  using assms by (cases D) (auto simp: ncols_def)

lemma sum_list_cong_upt:
  assumes "\<And>k. k < n \<Longrightarrow> f k = g k"
  shows "(\<Sum>k\<leftarrow>[0..<n]. f k) = (\<Sum>k\<leftarrow>[0..<n]. g k)"
  using assms by (intro arg_cong[where f = sum_list] map_cong) auto

lemma devs_rows:
  assumes "is_mat n n S" "d \<in> set (S @ mneg S @ replicate c (replicate n 0))"
  shows "length d = n"
  using assms by (auto simp: is_mat_def list_all_iff mneg_def)

lemma affine_mean:
  fixes A :: mat
  assumes S: "is_mat n n S" and i: "length i = n" and A: "length A = m" and b: "length b = m"
    and wsum: "2 * real n * \<omega> + sum_list ws = 1"
    and D: "D = S @ mneg S @ replicate (length ws) (replicate n 0)" and ne: "D \<noteq> []"
    and w: "w = replicate (2 * n) \<omega> @ ws"
  shows "einsum_k_ki w (map (\<lambda>d. vadd (einsum_ij_j A (vadd d i)) b) D) = vadd (einsum_ij_j A i) b"
proof (rule nth_equalityI)
  let ?F = "\<lambda>d. vadd (einsum_ij_j A (vadd d i)) b"
  have lenF: "length (?F d) = m" for d using A b by (simp add: vadd_length)
  have nc: "ncols (map ?F D) = m" by (rule ncols_map[OF ne lenF])
  have lenr: "length (vadd (einsum_ij_j A i) b) = m" using A b by (simp add: vadd_length)
  show "length (einsum_k_ki w (map ?F D)) = length (vadd (einsum_ij_j A i) b)"
    by (simp only: einsum_k_ki_length nc lenr)
  fix j assume "j < length (einsum_k_ki w (map ?F D))"
  then have j: "j < m" by (simp add: einsum_k_ki_length nc)
  have lS: "length S = n" using S by (rule is_mat_length)
  have lw: "length w = length D" using lS by (simp add: w D mneg_def)
  define c where "c = einsum_ij_j A i ! j + b ! j"
  define a where "a k = einsum_ij_j A (S ! k) ! j" for k
  have g1: "?F (S ! k) ! j = a k + c" if "k < n" for k
    using that j A b is_mat_nth[OF S that] i
    by (simp add: vadd_nth vadd_length lin_add[where n = n] a_def c_def)
  have g2: "?F (map uminus (S ! k)) ! j = - a k + c" if "k < n" for k
    using that j A b is_mat_nth[OF S that] i
    by (simp add: vadd_nth vadd_length lin_add[where n = n] lin_neg a_def c_def)
  have g3: "?F (replicate n 0) ! j = c"
    using j A b i by (simp add: vadd_nth vadd_length lin_add[where n = n] lin_zero c_def)
  have "einsum_k_ki w (map ?F D) ! j = (\<Sum>k\<leftarrow>[0..<length w]. w ! k * map ?F D ! k ! j)"
    using j by (simp add: einsum_k_ki_nth nc)
  also have "\<dots> = (\<Sum>k\<leftarrow>[0..<length w]. w ! k * (?F (D ! k) ! j))"
    by (rule sum_list_cong_upt) (simp add: lw)
  also have "\<dots> = \<omega> * (\<Sum>k<n. ?F (S ! k) ! j) + \<omega> * (\<Sum>k<n. ?F (map uminus (S ! k)) ! j)
       + sum_list ws * (?F (replicate n 0) ! j)"
    unfolding w D by (rule weighted_sum_devs[OF lS, where g = "\<lambda>d. ?F d ! j"])
  also have "\<dots> = \<omega> * (\<Sum>k<n. a k + c) + \<omega> * (\<Sum>k<n. - a k + c) + sum_list ws * c"
    using g1 g2 g3 by simp
  also have "\<dots> = (2 * real n * \<omega> + sum_list ws) * c"
  proof -
    have s1: "(\<Sum>k<n. a k + c) = (\<Sum>k<n. a k) + real n * c" by (simp add: sum.distrib)
    have s2: "(\<Sum>k<n. - a k + c) = - (\<Sum>k<n. a k) + real n * c"
      by (simp add: sum_subtractf)
    show ?thesis unfolding s1 s2 by (simp add: algebra_simps)
  qed
  also have "\<dots> = c" using wsum by simp
  finally show "einsum_k_ki w (map ?F D) ! j = vadd (einsum_ij_j A i) b ! j"
    using j A b by (simp add: c_def vadd_nth)
qed

lemma prod_sums:
  fixes a b :: "nat \<Rightarrow> real"
  shows "(\<Sum>p<n. a p) * (\<Sum>q<m. b q) * c = (\<Sum>p<n. \<Sum>q<m. a p * b q * c)"
  unfolding sum_product by (simp add: sum_distrib_right)

lemma triple_swap:
  fixes A B :: "nat \<Rightarrow> real" and D :: "nat \<Rightarrow> nat \<Rightarrow> real"
  shows "(\<Sum>k<N. (\<Sum>p<n. A p * D k p) * (\<Sum>q<m. B q * E k q) * w k)
       = (\<Sum>p<n. \<Sum>q<m. A p * B q * (\<Sum>k<N. D k p * E k q * w k))"
proof -
  have "(\<Sum>k<N. (\<Sum>p<n. A p * D k p) * (\<Sum>q<m. B q * E k q) * w k)
      = (\<Sum>k<N. \<Sum>p<n. \<Sum>q<m. (A p * D k p) * (B q * E k q) * w k)"
    by (simp only: prod_sums)
  also have "\<dots> = (\<Sum>k<N. \<Sum>p<n. \<Sum>q<m. A p * B q * (D k p * E k q * w k))"
    by (intro sum.cong refl) (simp add: mult_ac)
  also have "\<dots> = (\<Sum>p<n. \<Sum>k<N. \<Sum>q<m. A p * B q * (D k p * E k q * w k))"
    by (rule sum.swap)
  also have "\<dots> = (\<Sum>p<n. \<Sum>q<m. \<Sum>k<N. A p * B q * (D k p * E k q * w k))"
    by (rule sum.cong[OF refl]) (rule sum.swap)
  also have "\<dots> = (\<Sum>p<n. \<Sum>q<m. A p * B q * (\<Sum>k<N. D k p * E k q * w k))"
    by (simp add: sum_distrib_left)
  finally show ?thesis .
qed

lemma gram_nth:
  "p < ncols S \<Longrightarrow> q < ncols S \<Longrightarrow> gram S ! p ! q = (\<Sum>k<length S. S ! k ! p * S ! k ! q)"
  by (simp add: gram_def sl_sum)

lemma smul_nth:
  "is_mat r c M \<Longrightarrow> p < r \<Longrightarrow> q < c \<Longrightarrow> smul a M ! p ! q = a * M ! p ! q"
  by (simp add: smul_def is_mat_def list_all_length)

lemma devs_second_moment:
  assumes S: "is_mat n n S" and Pi: "is_mat n n Pi"
    and gram: "gram S = smul (real n + \<kappa>) Pi"
    and om: "2 * \<omega> * (real n + \<kappa>) = 1"
    and D: "D = S @ mneg S @ replicate (length ws) (replicate n 0)"
    and w: "w = replicate (2 * n) \<omega> @ ws"
    and p: "p < n" and q: "q < n"
  shows "(\<Sum>k\<leftarrow>[0..<length w]. D ! k ! p * D ! k ! q * w ! k) = Pi ! p ! q"
proof -
  have lS: "length S = n" using S by (rule is_mat_length)
  have nc: "ncols S = n" using S p by (intro ncols_is_mat) auto
  have "(\<Sum>k\<leftarrow>[0..<length w]. D ! k ! p * D ! k ! q * w ! k)
      = (\<Sum>k\<leftarrow>[0..<length w]. w ! k * (D ! k ! p * D ! k ! q))"
    by (simp add: mult.commute)
  also have "\<dots> = \<omega> * (\<Sum>k<n. S ! k ! p * S ! k ! q)
       + \<omega> * (\<Sum>k<n. map uminus (S ! k) ! p * map uminus (S ! k) ! q)
       + sum_list ws * (replicate n 0 ! p * replicate n 0 ! q)"
    unfolding w D by (rule weighted_sum_devs[OF lS, where g = "\<lambda>d. d ! p * d ! q"])
  also have "(\<Sum>k<n. map uminus (S ! k) ! p * map uminus (S ! k) ! q) = (\<Sum>k<n. S ! k ! p * S ! k ! q)"
    by (rule sum.cong[OF refl]) (use p q S in \<open>simp add: is_mat_nth\<close>)
  also have "\<omega> * (\<Sum>k<n. S ! k ! p * S ! k ! q) + \<omega> * (\<Sum>k<n. S ! k ! p * S ! k ! q)
       + sum_list ws * (replicate n 0 ! p * replicate n 0 ! q)
     = 2 * \<omega> * gram S ! p ! q"
    using p q by (simp add: gram_nth nc lS)
  also have "\<dots> = 2 * \<omega> * ((real n + \<kappa>) * Pi ! p ! q)"
    using p q by (simp add: gram smul_nth[OF Pi])
  also have "\<dots> = Pi ! p ! q" using om by (simp add: mult.assoc[symmetric])
  finally show ?thesis .
qed

lemma einsum_ik_jl_kl_nth:
  "a < length A \<Longrightarrow> b < length B \<Longrightarrow>
     einsum_ik_jl_kl A B P ! a ! b
       = (\<Sum>k<length P. \<Sum>l<ncols P. A ! a ! k * B ! b ! l * P ! k ! l)"
  by (simp add: einsum_ik_jl_kl_def sl_sum)

lemma einsum_ik_jl_kl_is_mat: "is_mat (length A) (length B) (einsum_ik_jl_kl A B P)"
  by (simp add: einsum_ik_jl_kl_def is_mat_def list_all_length)

lemma sum_ncols:
  assumes "is_mat n c P"
  shows "(\<Sum>k<n. \<Sum>l<ncols P. f k l) = (\<Sum>k<n. \<Sum>l<c. f k l)"
proof (cases "n = 0")
  case True then show ?thesis by simp
next
  case False
  then have "ncols P = c" using assms by (intro ncols_is_mat) auto
  then show ?thesis by simp
qed

lemma affine_cov:
  fixes A :: mat
  assumes S: "is_mat n n S" and i: "length i = n" and A: "length A = m" and b: "length b = m"
    and D: "D = S @ mneg S @ replicate (length ws) (replicate n 0)" and ne: "D \<noteq> []"
    and w: "w = replicate (2 * n) \<omega> @ ws"
    and Pi: "is_mat n n Pi"
    and mom: "\<And>p q. p < n \<Longrightarrow> q < n \<Longrightarrow>
                (\<Sum>k\<leftarrow>[0..<length w]. D ! k ! p * D ! k ! q * w ! k) = Pi ! p ! q"
    and od: "o_dev = map (\<lambda>row. vsub row (vadd (einsum_ij_j A i) b))
                       (map (\<lambda>d. vadd (einsum_ij_j A (vadd d i)) b) D)"
  shows "einsum_ki_kj_k o_dev o_dev w = einsum_ik_jl_kl A A Pi"
proof (rule mat_eqI[where r = m and c = m])
  let ?c = "vadd (einsum_ij_j A i) b"
  let ?G = "\<lambda>d. vsub (vadd (einsum_ij_j A (vadd d i)) b) ?c"
  have od': "o_dev = map ?G D" by (simp add: od)
  have lenG: "length (?G d) = m" for d using A b by (simp add: vsub_length vadd_length)
  have nc: "ncols o_dev = m" unfolding od' by (rule ncols_map[OF ne lenG])
  show "is_mat m m (einsum_ki_kj_k o_dev o_dev w)"
    using einsum_ki_kj_k_is_mat[of o_dev o_dev w] by (simp add: nc)
  show "is_mat m m (einsum_ik_jl_kl A A Pi)"
    using einsum_ik_jl_kl_is_mat[of A A Pi] by (simp add: A)
  have lS: "length S = n" using S by (rule is_mat_length)
  have lw: "length w = length D" using lS by (simp add: w D mneg_def)
  fix a c assume a: "a < m" and c: "c < m"
  have row: "o_dev ! k ! j = (\<Sum>p<n. A ! j ! p * D ! k ! p)" if k: "k < length D" and j: "j < m" for k j
  proof -
    note dr = devs_rows[OF S, of _ "length ws", folded D]
    have ld: "length (D ! k) = n"
      by (rule dr) (rule nth_mem[OF k])
    have "o_dev ! k ! j = einsum_ij_j A (vadd (D ! k) i) ! j + b ! j - (einsum_ij_j A i ! j + b ! j)"
      using k j A b by (simp add: od' vsub_nth vadd_nth vadd_length)
    also have "\<dots> = einsum_ij_j A (D ! k) ! j"
      using lin_add[OF ld i, of j A] j A by simp
    finally show ?thesis using j A ld by (simp add: einsum_ij_j_nth)
  qed
  have "einsum_ki_kj_k o_dev o_dev w ! a ! c
      = (\<Sum>k\<leftarrow>[0..<length w]. o_dev ! k ! a * o_dev ! k ! c * w ! k)"
    using a c by (simp add: einsum_ki_kj_k_nth nc)
  also have "\<dots> = (\<Sum>k\<leftarrow>[0..<length w]. (\<Sum>p<n. A ! a ! p * D ! k ! p) * (\<Sum>q<n. A ! c ! q * D ! k ! q) * w ! k)"
    by (rule sum_list_cong_upt) (use a c in \<open>simp add: row lw\<close>)
  also have "\<dots> = (\<Sum>k<length w. (\<Sum>p<n. A ! a ! p * D ! k ! p) * (\<Sum>q<n. A ! c ! q * D ! k ! q) * w ! k)"
    by (rule sl_sum)
  also have "\<dots> = (\<Sum>p<n. \<Sum>q<n. A ! a ! p * A ! c ! q * (\<Sum>k<length w. D ! k ! p * D ! k ! q * w ! k))"
    by (rule triple_swap)
  also have "\<dots> = (\<Sum>p<n. \<Sum>q<n. A ! a ! p * A ! c ! q * Pi ! p ! q)"
    by (intro sum.cong refl) (simp add: mom[symmetric] sl_sum)
  also have "\<dots> = einsum_ik_jl_kl A A Pi ! a ! c"
    using a c A by (simp add: einsum_ik_jl_kl_nth is_mat_length[OF Pi] sum_ncols[OF Pi])
  finally show "einsum_ki_kj_k o_dev o_dev w ! a ! c = einsum_ik_jl_kl A A Pi ! a ! c" .
qed


section \<open>The transform of an affine map\<close>

lemma weights_facts:
  assumes nz: "real n + \<kappa> \<noteq> 0"
  defines "\<omega> \<equiv> 0.5 / (real n + \<kappa>)"
  defines "ws \<equiv> (if \<kappa> \<noteq> 0 then [\<kappa> / (real n + \<kappa>)] else [])"
  shows "2 * real n * \<omega> + sum_list ws = 1" and "2 * \<omega> * (real n + \<kappa>) = 1"
proof -
  have "2 * real n * \<omega> = real n / (real n + \<kappa>)"
    using nz by (simp add: \<omega>_def field_simps)
  then have "2 * real n * \<omega> + sum_list ws = real n / (real n + \<kappa>) + (if \<kappa> \<noteq> 0 then \<kappa> / (real n + \<kappa>) else 0)"
    by (simp add: ws_def)
  also have "\<dots> = (real n + \<kappa>) / (real n + \<kappa>)"
    by (simp only: add_divide_distrib split: if_split) simp
  finally show "2 * real n * \<omega> + sum_list ws = 1" using nz by simp
  show "2 * \<omega> * (real n + \<kappa>) = 1" using nz by (simp add: \<omega>_def)
qed

text \<open>
  Claim C3. Let the transform be constructed for dimension \<open>n\<close>, of either class, and let
  \<open>f\<close> be affine on the rows of its argument, \<open>z \<mapsto> A z + b\<close>. If the square root method
  returns a matrix \<open>S\<close> whose Gram matrix is \<open>(n + kappa) Pi\<close>, then \<^verbatim>\<open>transform\<close> returns the
  mean \<open>A i + b\<close> and the covariance \<open>A Pi A\<^sup>T\<close>, which \<open>einsum_ik_jl_kl A A Pi\<close> is.
\<close>

theorem transform_affine:
  assumes init: "ut_init cls n opts = Inr t"
    and i: "length (utw_i work) = n" and Pi: "is_mat n n (utw_Pi work)"
    and A: "is_mat m n A" and b: "length b = m"
    and f: "\<forall>X. f X = Inr (map (\<lambda>z. vadd (einsum_ij_j A z) b) X)"
    and sq: "ut_sqrt la t work (smul (real n + ut_kappa t) (utw_Pi work)) = Inr (w1, S)"
    and S: "is_mat n n S" and gram: "gram S = smul (real n + ut_kappa t) (utw_Pi work)"
  shows "\<exists>work'. transform la t work f =
            Inr (work', vadd (einsum_ij_j A (utw_i work)) b, einsum_ik_jl_kl A A (utw_Pi work))"
proof -
  note tf = ut_init_fields[OF init]
  define \<kappa> where "\<kappa> = ut_kappa t"
  define \<omega> where "\<omega> = 0.5 / (real n + \<kappa>)"
  define ws where "ws = (if \<kappa> \<noteq> 0 then [\<kappa> / (real n + \<kappa>)] else [])"
  define D where "D = S @ mneg S @ replicate (length ws) (replicate n 0)"
  define w where "w = replicate (2 * n) \<omega> @ ws"
  have nz: "real n + \<kappa> \<noteq> 0" using tf(2) by (simp add: \<kappa>_def)
  have wt: "ut_weights t = w" using tf(4) by (simp add: w_def \<omega>_def ws_def \<kappa>_def)
  have ns: "ut_nsigma t = 2 * ut_ni t + length ws"
    using tf(1,3) by (simp add: ws_def \<kappa>_def)
  have lS: "length S = n" using S by (rule is_mat_length)
  have ne: "D \<noteq> []"
  proof (cases "n = 0")
    case True
    then have "\<kappa> \<noteq> 0" using nz by simp
    then show ?thesis by (simp add: D_def ws_def)
  next
    case False
    then show ?thesis using lS by (auto simp: D_def)
  qed
  have wf: "2 * real n * \<omega> + sum_list ws = 1" "2 * \<omega> * (real n + \<kappa>) = 1"
    unfolding \<omega>_def ws_def by (rule weights_facts[OF nz])+
  let ?i = "utw_i work"
  let ?isg = "map (\<lambda>row. vadd row ?i) D"
  have sq': "ut_sqrt la t work (smul (real (ut_ni t) + ut_kappa t) (utw_Pi work)) = Inr (w1, S)"
    using sq tf(1) by simp
  have sp: "sigma_points la t work =
     Inr (w1\<lparr>utw_i_sigma := Some ?isg, utw_i_dev := Some D\<rparr>, ?isg)"
    using sigma_points_value[OF sq' _ ns] lS tf(1) by (simp add: D_def)
  let ?X = "map (\<lambda>d. vadd (einsum_ij_j A (vadd d ?i)) b) D"
  have fX: "f ?isg = Inr ?X" by (simp add: f o_def)
  have lA: "length A = m" using A by (rule is_mat_length)
  have mean: "einsum_k_ki w ?X = vadd (einsum_ij_j A ?i) b"
    by (rule affine_mean[OF S i lA b wf(1) D_def ne w_def])
  have mom: "(\<Sum>k\<leftarrow>[0..<length w]. D ! k ! p * D ! k ! q * w ! k) = utw_Pi work ! p ! q"
    if "p < n" "q < n" for p q
    by (rule devs_second_moment[OF S Pi _ wf(2) D_def w_def that]) (use gram in \<open>simp add: \<kappa>_def\<close>)
  have cov: "einsum_ki_kj_k (map (\<lambda>row. vsub row (vadd (einsum_ij_j A ?i) b)) ?X)
                (map (\<lambda>row. vsub row (vadd (einsum_ij_j A ?i) b)) ?X) w
             = einsum_ik_jl_kl A A (utw_Pi work)"
    by (rule affine_cov[OF S i lA b D_def ne w_def Pi mom refl])
  note tv = transform_value[of la t work _ ?isg f ?X, OF sp fX, unfolded wt mean cov]
  show ?thesis by (rule exI) (rule tv)
qed

lemma ut_init_kappa_one:
  "ut_init cls 1 [''kappa'' \<mapsto> PyNum 1] = Inr (ut_kappa_one cls)"
  by (simp add: ut_init_def options_get_def Let_def numeral_3_eq_3 ut_kappa_one_def)

lemma ut_sqrt_example:
  "ut_sqrt la_scalar (ut_kappa_one cls) utw_example (smul (real 1 + ut_kappa (ut_kappa_one cls)) (utw_Pi utw_example))
     = Inr (utw_example\<lparr>cw_S := Some [[2]]\<rparr>, [[2]])"
  by (cases cls)
     (simp_all add: ut_sqrt_def decompose_def la_scalar_def ut_kappa_one_def utw_example_def
        UnscentedTransformWork_def smul_def np_transpose_def ncols_def Let_def)

lemma gram_example: "gram [[2]] = smul (real 1 + ut_kappa (ut_kappa_one cls)) (utw_Pi utw_example)"
  by (simp add: gram_def ncols_def smul_def ut_kappa_one_def utw_example_def UnscentedTransformWork_def)

theorem transform_affine_witness:
  "ut_init CholeskyUnscentedTransform 1 [''kappa'' \<mapsto> PyNum 1] = Inr (ut_kappa_one CholeskyUnscentedTransform)
   \<and> ut_init SVDUnscentedTransform 1 [''kappa'' \<mapsto> PyNum 1] = Inr (ut_kappa_one SVDUnscentedTransform)
   \<and> is_mat 1 1 [[5]] \<and> is_mat 1 1 [[2]] \<and> gram [[2]] = [[4]]
   \<and> (\<exists>work'. transform la_scalar (ut_kappa_one CholeskyUnscentedTransform) utw_example affine_example
          = Inr (work', [16], [[50]]))
   \<and> (\<exists>work'. transform la_scalar (ut_kappa_one SVDUnscentedTransform) utw_example affine_example
          = Inr (work', [16], [[50]]))"
proof -
  have m5: "is_mat 1 1 [[5]]" and m2: "is_mat 1 1 [[2]]" by (simp_all add: is_mat_def)
  have i: "length (utw_i utw_example) = 1" and Pi: "is_mat 1 1 (utw_Pi utw_example)"
    by (simp_all add: utw_example_def UnscentedTransformWork_def is_mat_def)
  have b: "length [1::real] = 1" by simp
  have f: "\<forall>X. affine_example X = Inr (map (\<lambda>z. vadd (einsum_ij_j [[5]] z) [1]) X)"
    by (simp add: affine_example_def)
  have va: "vadd (einsum_ij_j [[5]] (utw_i utw_example)) [1] = [16]"
    "einsum_ik_jl_kl [[5]] [[5]] (utw_Pi utw_example) = [[50]]"
    by (simp_all add: vadd_def einsum_ij_j_def einsum_ik_jl_kl_def ncols_def utw_example_def
        UnscentedTransformWork_def)
  have r: "\<exists>work'. transform la_scalar (ut_kappa_one cls) utw_example affine_example
          = Inr (work', [16], [[50]])" for cls
    using transform_affine[OF ut_init_kappa_one i Pi m5 b f ut_sqrt_example m2 gram_example]
    unfolding va .
  have g: "gram [[2]] = [[4]]" by (simp add: gram_def ncols_def)
  from ut_init_kappa_one m5 m2 g r show ?thesis by blast
qed
section \<open>The Cholesky decomposition\<close>

subsection \<open>The factorization of the upper triangle\<close>

lemma chol_row_value:
  "chol_row Q n R =
     (if Q ! length R ! length R - (\<Sum>k<length R. R ! k ! length R * R ! k ! length R) \<le> 0
      then Inl LinAlgError
      else Inr (map (\<lambda>i. if i < length R then 0
                  else if i = length R
                    then sqrt (Q ! length R ! length R - (\<Sum>k<length R. R ! k ! length R * R ! k ! length R))
                  else (Q ! length R ! i - (\<Sum>k<length R. R ! k ! length R * R ! k ! i))
                       / sqrt (Q ! length R ! length R - (\<Sum>k<length R. R ! k ! length R * R ! k ! length R)))
                [0..<n]))"
  by (simp add: chol_row_def Let_def sl_sum)

lemma chol_inv_empty: "chol_inv Q n []"
  by (simp add: chol_inv_def)

lemma chol_inv_step:
  assumes inv: "chol_inv Q n R" and lt: "length R < n"
    and piv: "0 < Q ! length R ! length R - (\<Sum>k<length R. R ! k ! length R * R ! k ! length R)"
  shows "\<exists>row. chol_row Q n R = Inr row \<and> chol_inv Q n (R @ [row])"
proof -
  define j where "j = length R"
  define p where "p = Q ! j ! j - (\<Sum>k<j. R ! k ! j * R ! k ! j)"
  define row where "row = map (\<lambda>i. if i < j then 0 else if i = j then sqrt p
                  else (Q ! j ! i - (\<Sum>k<j. R ! k ! j * R ! k ! i)) / sqrt p) [0..<n]"
  have p: "0 < p" using piv by (simp add: p_def j_def)
  have sp: "0 < sqrt p" using p by simp
  have cr: "chol_row Q n R = Inr row"
    using p unfolding chol_row_value row_def p_def j_def by simp
  have jn: "j < n" using lt by (simp add: j_def)
  have old: "(R @ [row]) ! l = R ! l" if "l < j" for l
    using that by (simp add: nth_append j_def)
  have new: "(R @ [row]) ! j = row" by (simp add: j_def)
  have rowlen: "length row = n" by (simp add: row_def)
  have rowj: "row ! j = sqrt p" using jn by (simp add: row_def)
  have row0: "row ! i = 0" if "i < j" for i using that jn by (simp add: row_def)
  have rowi: "row ! i = (Q ! j ! i - (\<Sum>k<j. R ! k ! j * R ! k ! i)) / sqrt p" if "j < i" "i < n" for i
    using that by (simp add: row_def)
  have oldk: "length ((R @ [row]) ! k) = n \<and> 0 < (R @ [row]) ! k ! k \<and> (\<forall>i<k. (R @ [row]) ! k ! i = 0)
      \<and> (\<forall>i. k \<le> i \<and> i < n \<longrightarrow> (\<Sum>l<Suc k. (R @ [row]) ! l ! k * (R @ [row]) ! l ! i) = Q ! k ! i)"
    if k: "k < j" for k
  proof -
    have ik: "length (R ! k) = n \<and> 0 < R ! k ! k \<and> (\<forall>i<k. R ! k ! i = 0)
            \<and> (\<forall>i. k \<le> i \<and> i < n \<longrightarrow> (\<Sum>l<Suc k. R ! l ! k * R ! l ! i) = Q ! k ! i)"
      using inv k by (simp add: chol_inv_def j_def)
    have s: "(\<Sum>l<Suc k. (R @ [row]) ! l ! k * (R @ [row]) ! l ! i) = (\<Sum>l<Suc k. R ! l ! k * R ! l ! i)" for i
      by (rule sum.cong[OF refl]) (use k old in auto)
    show ?thesis unfolding s old[OF k] by (rule ik)
  qed
  have newk: "(\<Sum>l<Suc j. (R @ [row]) ! l ! j * (R @ [row]) ! l ! i) = Q ! j ! i"
    if i: "j \<le> i" "i < n" for i
  proof -
    have "(\<Sum>l<Suc j. (R @ [row]) ! l ! j * (R @ [row]) ! l ! i)
        = (\<Sum>l<j. (R @ [row]) ! l ! j * (R @ [row]) ! l ! i) + row ! j * row ! i"
      by (simp add: new)
    also have "(\<Sum>l<j. (R @ [row]) ! l ! j * (R @ [row]) ! l ! i) = (\<Sum>l<j. R ! l ! j * R ! l ! i)"
      by (rule sum.cong[OF refl]) (use old in auto)
    also have "row ! j * row ! i = Q ! j ! i - (\<Sum>l<j. R ! l ! j * R ! l ! i)"
    proof (cases "i = j")
      case True
      have "sqrt p * sqrt p = p" using p by simp
      then show ?thesis by (simp add: True rowj p_def)
    next
      case False
      then have "j < i" using i by simp
      then show ?thesis using sp i by (simp add: rowj rowi)
    qed
    finally show ?thesis by simp
  qed
  have "chol_inv Q n (R @ [row])"
    unfolding chol_inv_def
  proof (rule conjI[OF _ allI[OF impI]])
    show "length (R @ [row]) \<le> n" using jn by (simp add: j_def)
  next
    fix k assume "k < length (R @ [row])"
    then have k: "k < j \<or> k = j" by (auto simp: j_def)
    show "length ((R @ [row]) ! k) = n \<and> 0 < (R @ [row]) ! k ! k \<and> (\<forall>i<k. (R @ [row]) ! k ! i = 0)
      \<and> (\<forall>i. k \<le> i \<and> i < n \<longrightarrow> (\<Sum>l<Suc k. (R @ [row]) ! l ! k * (R @ [row]) ! l ! i) = Q ! k ! i)"
    proof (cases "k < j")
      case True
      then show ?thesis by (rule oldk)
    next
      case False
      then have kj: "k = j" using k by simp
      show ?thesis unfolding kj new
        using rowlen rowj sp row0 newk by simp
    qed
  qed
  with cr show ?thesis by blast
qed

lemma chol_loop_error: "chol_loop Q n m R = Inl err \<Longrightarrow> err = LinAlgError"
proof (induction m arbitrary: R)
  case 0
  then show ?case by simp
next
  case (Suc m)
  show ?case
  proof (cases "chol_row Q n R")
    case (Inl e)
    then have "e = LinAlgError" by (simp add: chol_row_def Let_def split: if_splits)
    then show ?thesis using Suc.prems Inl by simp
  next
    case (Inr row)
    then show ?thesis using Suc.prems Suc.IH[of "R @ [row]"] by simp
  qed
qed

lemma chol_loop_inv:
  assumes "chol_inv Q n R" and "length R + m = n" and "chol_loop Q n m R = Inr S"
  shows "chol_inv Q n S \<and> length S = n"
  using assms
proof (induction m arbitrary: R)
  case 0
  then show ?case by simp
next
  case (Suc m)
  have lt: "length R < n" using Suc.prems(2) by simp
  obtain row where row: "chol_row Q n R = Inr row"
    using Suc.prems(3) by (cases "chol_row Q n R") auto
  then have piv: "0 < Q ! length R ! length R - (\<Sum>k<length R. R ! k ! length R * R ! k ! length R)"
    unfolding chol_row_value by (simp split: if_splits)
  obtain row' where r': "chol_row Q n R = Inr row'" "chol_inv Q n (R @ [row'])"
    using chol_inv_step[OF Suc.prems(1) lt piv] by blast
  have e: "row' = row" using r'(1) row by simp
  show ?case
    by (rule Suc.IH[of "R @ [row]"]) (use r' e row Suc.prems in auto)
qed

text \<open>With the rows found so far, the sums over all rows are entries of Q.\<close>

lemma chol_inv_entry:
  assumes inv: "chol_inv Q n R" and a: "a < length R" and ab: "a \<le> b" and b: "b < n"
  shows "(\<Sum>l<length R. R ! l ! a * R ! l ! b) = Q ! a ! b"
proof -
  have z: "R ! l ! a = 0" if "a < l" "l < length R" for l
    using inv that by (simp add: chol_inv_def)
  have "(\<Sum>l<length R. R ! l ! a * R ! l ! b) = (\<Sum>l<Suc a. R ! l ! a * R ! l ! b)"
    by (rule sum.mono_neutral_right) (use a z in \<open>auto simp: not_less_eq\<close>)
  also have "\<dots> = Q ! a ! b" using inv a ab b by (simp add: chol_inv_def)
  finally show ?thesis .
qed

lemma upper_solve:
  fixes U :: "nat \<Rightarrow> nat \<Rightarrow> real"
  assumes tri: "\<And>k l. l < k \<Longrightarrow> k < j \<Longrightarrow> U k l = 0"
    and dia: "\<And>k. k < j \<Longrightarrow> U k k \<noteq> 0"
  shows "\<exists>u. \<forall>k<j. (\<Sum>l<j. U k l * u l) = c k"
proof -
  have "\<exists>u. \<forall>k<j. j - m \<le> k \<longrightarrow> (\<Sum>l<j. U k l * u l) = c k" for m
  proof (induction m)
    case 0
    then show ?case by simp
  next
    case (Suc m)
    then obtain u where u: "\<forall>k<j. j - m \<le> k \<longrightarrow> (\<Sum>l<j. U k l * u l) = c k" by blast
    show ?case
    proof (cases "m < j")
      case False
      then have "j - Suc m = j - m" by simp
      then show ?thesis using u by auto
    next
      case True
      define k' where "k' = j - Suc m"
      have k': "k' < j" "j - m = Suc k'" using True by (simp_all add: k'_def)
      define u' where "u' = u(k' := (c k' - (\<Sum>l\<in>{..<j} - {k'}. U k' l * u l)) / U k' k')"
      have "(\<Sum>l<j. U k l * u' l) = c k" if k: "k < j" "k' \<le> k" for k
      proof (cases "k = k'")
        case True
        have "(\<Sum>l<j. U k' l * u' l) = U k' k' * u' k' + (\<Sum>l\<in>{..<j} - {k'}. U k' l * u' l)"
          by (rule sum.remove) (use k' in auto)
        also have "(\<Sum>l\<in>{..<j} - {k'}. U k' l * u' l) = (\<Sum>l\<in>{..<j} - {k'}. U k' l * u l)"
          by (rule sum.cong[OF refl]) (simp add: u'_def)
        also have "U k' k' * u' k' = c k' - (\<Sum>l\<in>{..<j} - {k'}. U k' l * u l)"
          using dia[OF k'(1)] by (simp add: u'_def)
        finally show ?thesis by (simp add: True)
      next
        case False
        then have lt: "k' < k" using k by simp
        have "(\<Sum>l<j. U k l * u' l) = (\<Sum>l<j. U k l * u l)"
        proof (rule sum.cong[OF refl])
          fix l assume "l \<in> {..<j}"
          show "U k l * u' l = U k l * u l"
          proof (cases "l = k'")
            case True
            then show ?thesis using tri[OF lt k(1)] by simp
          next
            case False
            then show ?thesis by (simp add: u'_def)
          qed
        qed
        also have "\<dots> = c k" using u k lt k'(2) by simp
        finally show ?thesis .
      qed
      then have "\<forall>k<j. j - Suc m \<le> k \<longrightarrow> (\<Sum>l<j. U k l * u' l) = c k"
        by (simp add: k'_def)
      then show ?thesis by blast
    qed
  qed
  from this[of j] show ?thesis by simp
qed


lemma quad_form:
  "length v = n \<Longrightarrow> einsum_i_ij_j v Q v = (\<Sum>a<n. \<Sum>b<n. v ! a * Q ! a ! b * v ! b)"
  by (simp add: einsum_i_ij_j_def sl_sum)

lemma gram_quad:
  fixes f :: "nat \<Rightarrow> real" and R :: "nat \<Rightarrow> nat \<Rightarrow> real"
  shows "(\<Sum>a<n. \<Sum>b<n. f a * (\<Sum>l<j. R l a * R l b) * f b) = (\<Sum>l<j. (\<Sum>a<n. R l a * f a)\<^sup>2)"
proof -
  have "(\<Sum>l<j. (\<Sum>a<n. R l a * f a)\<^sup>2) = (\<Sum>l<j. \<Sum>a<n. \<Sum>b<n. (R l a * f a) * (R l b * f b))"
    by (simp add: power2_eq_square sum_product)
  also have "\<dots> = (\<Sum>a<n. \<Sum>l<j. \<Sum>b<n. (R l a * f a) * (R l b * f b))"
    by (rule sum.swap)
  also have "\<dots> = (\<Sum>a<n. \<Sum>b<n. \<Sum>l<j. (R l a * f a) * (R l b * f b))"
    by (rule sum.cong[OF refl]) (rule sum.swap)
  also have "\<dots> = (\<Sum>a<n. \<Sum>b<n. f a * (\<Sum>l<j. R l a * R l b) * f b)"
    by (intro sum.cong refl) (simp add: sum_distrib_left sum_distrib_right mult_ac)
  finally show ?thesis by simp
qed

lemma chol_pivot_pos:
  assumes spd: "sym_pd n Q" and inv: "chol_inv Q n R" and lt: "length R < n"
  shows "0 < Q ! length R ! length R - (\<Sum>k<length R. R ! k ! length R * R ! k ! length R)"
proof -
  define j where "j = length R"
  define G where "G a b = (\<Sum>l<j. R ! l ! a * R ! l ! b)" for a b
  define p where "p = Q ! j ! j - G j j"
  have jn: "j < n" using lt by (simp add: j_def)
  have tri: "R ! k ! l = 0" if "l < k" "k < j" for k l
    using inv that by (simp add: chol_inv_def j_def)
  have dia: "R ! k ! k \<noteq> 0" if "k < j" for k
    using inv that by (auto simp: chol_inv_def j_def)
  obtain u where u: "\<forall>k<j. (\<Sum>l<j. R ! k ! l * u l) = - R ! k ! j"
    using upper_solve[of j "\<lambda>k l. R ! k ! l" "\<lambda>k. - R ! k ! j"] tri dia by blast
  define vf where "vf a = (if a < j then u a else if a = j then 1 else 0)" for a
  define v where "v = map vf [0..<n]"
  have lv: "length v = n" by (simp add: v_def)
  have vnth: "v ! a = vf a" if "a < n" for a using that by (simp add: v_def)
  have "v ! j \<noteq> replicate n 0 ! j" using jn by (simp add: vnth vf_def)
  then have nz: "v \<noteq> replicate n 0" by auto
  have pos: "0 < einsum_i_ij_j v Q v" using spd lv nz by (simp add: sym_pd_def pd_def)
  have sym: "Q ! a ! b = Q ! b ! a" if "a < n" "b < n" for a b
    using spd that by (simp add: sym_pd_def symmetric_def)
  have QG: "Q ! a ! b = G a b" if ab: "a \<le> j" "b \<le> j" "\<not> (a = j \<and> b = j)" for a b
  proof (cases "a \<le> b")
    case True
    then have "a < j" using ab by auto
    then show ?thesis
      using chol_inv_entry[OF inv, of a b] True ab jn by (simp add: G_def j_def)
  next
    case False
    then have ba: "b \<le> a" "b < j" using ab by auto
    have "G a b = (\<Sum>l<j. R ! l ! b * R ! l ! a)" by (simp add: G_def mult.commute)
    also have "\<dots> = Q ! b ! a"
      using chol_inv_entry[OF inv, of b a] ba ab jn by (simp add: j_def)
    also have "\<dots> = Q ! a ! b" using sym[of b a] ab jn by simp
    finally show ?thesis by simp
  qed
  have trm: "vf a * Q ! a ! b * vf b = vf a * G a b * vf b + (if b = j then (if a = j then p else 0) else 0)"
    if "a < n" "b < n" for a b
  proof -
    consider "j < a" | "j < b" | "a = j \<and> b = j" | "a \<le> j \<and> b \<le> j \<and> \<not> (a = j \<and> b = j)"
      by linarith
    then show ?thesis
    proof cases
      case 1
      then show ?thesis by (simp add: vf_def)
    next
      case 2
      then show ?thesis by (simp add: vf_def)
    next
      case 3
      then show ?thesis by (simp add: vf_def p_def)
    next
      case 4
      then have "Q ! a ! b = G a b" using QG by simp
      then show ?thesis using 4 by auto
    qed
  qed
  have row: "(\<Sum>a<n. R ! l ! a * vf a) = 0" if l: "l < j" for l
  proof -
    have "(\<Sum>a<n. R ! l ! a * vf a) = (\<Sum>a<Suc j. R ! l ! a * vf a)"
      by (rule sum.mono_neutral_right) (use jn in \<open>auto simp: vf_def not_less_eq\<close>)
    also have "\<dots> = (\<Sum>a<j. R ! l ! a * vf a) + R ! l ! j" by (simp add: vf_def)
    also have "(\<Sum>a<j. R ! l ! a * vf a) = (\<Sum>a<j. R ! l ! a * u a)"
      by (rule sum.cong[OF refl]) (simp add: vf_def)
    also have "\<dots> = - R ! l ! j" using u l by simp
    finally show ?thesis by simp
  qed
  have "einsum_i_ij_j v Q v = (\<Sum>a<n. \<Sum>b<n. v ! a * Q ! a ! b * v ! b)"
    using lv by (rule quad_form)
  also have "\<dots> = (\<Sum>a<n. \<Sum>b<n. vf a * G a b * vf b + (if b = j then (if a = j then p else 0) else 0))"
    by (intro sum.cong refl) (simp add: vnth trm)
  also have "\<dots> = (\<Sum>a<n. \<Sum>b<n. vf a * G a b * vf b) + (\<Sum>a<n. \<Sum>b<n. if b = j then (if a = j then p else 0) else 0)"
    by (simp add: sum.distrib)
  also have "(\<Sum>a<n. \<Sum>b<n. if b = j then (if a = j then p else 0) else 0) = p"
    using jn by (simp add: sum.delta)
  also have "(\<Sum>a<n. \<Sum>b<n. vf a * G a b * vf b) = (\<Sum>l<j. (\<Sum>a<n. R ! l ! a * vf a)\<^sup>2)"
    unfolding G_def by (rule gram_quad)
  also have "\<dots> = 0" by (simp add: row)
  finally have "einsum_i_ij_j v Q v = p" by simp
  with pos show ?thesis by (simp add: p_def G_def j_def)
qed

lemma chol_factor_pd:
  assumes inv: "chol_inv Q n S" and len: "length S = n" and sym: "symmetric n Q"
  shows "pd n Q"
  unfolding pd_def
proof (intro allI impI)
  fix v :: vec
  assume h: "length v = n \<and> v \<noteq> replicate n 0"
  then have lv: "length v = n" and nz: "v \<noteq> replicate n 0" by simp_all
  have QG: "Q ! a ! b = (\<Sum>l<n. S ! l ! a * S ! l ! b)" if ab: "a < n" "b < n" for a b
  proof (cases "a \<le> b")
    case True
    then show ?thesis using chol_inv_entry[OF inv, of a b] ab len by simp
  next
    case False
    have "(\<Sum>l<n. S ! l ! a * S ! l ! b) = (\<Sum>l<n. S ! l ! b * S ! l ! a)" by (simp add: mult.commute)
    also have "\<dots> = Q ! b ! a" using chol_inv_entry[OF inv, of b a] ab len False by simp
    also have "\<dots> = Q ! a ! b" using sym ab by (simp add: symmetric_def)
    finally show ?thesis by simp
  qed
  have "einsum_i_ij_j v Q v = (\<Sum>a<n. \<Sum>b<n. v ! a * Q ! a ! b * v ! b)"
    using lv by (rule quad_form)
  also have "\<dots> = (\<Sum>a<n. \<Sum>b<n. v ! a * (\<Sum>l<n. S ! l ! a * S ! l ! b) * v ! b)"
    by (intro sum.cong refl) (simp add: QG)
  also have "\<dots> = (\<Sum>l<n. (\<Sum>a<n. S ! l ! a * v ! a)\<^sup>2)"
    by (rule gram_quad)
  finally have q: "einsum_i_ij_j v Q v = (\<Sum>l<n. (\<Sum>a<n. S ! l ! a * v ! a)\<^sup>2)" .
  have ge: "0 \<le> einsum_i_ij_j v Q v" unfolding q by (rule sum_nonneg) simp
  have "einsum_i_ij_j v Q v \<noteq> 0"
  proof
    assume "einsum_i_ij_j v Q v = 0"
    then have "(\<Sum>l<n. (\<Sum>a<n. S ! l ! a * v ! a)\<^sup>2) = 0" using q by simp
    then have "\<forall>l\<in>{..<n}. (\<Sum>a<n. S ! l ! a * v ! a)\<^sup>2 = 0"
      by (subst (asm) sum_nonneg_eq_0_iff) auto
    then have row: "(\<Sum>a<n. S ! l ! a * v ! a) = 0" if "l < n" for l using that by simp
    have z: "v ! a = 0" if "a < n" for a
      using that
    proof (induction "n - a" arbitrary: a rule: less_induct)
      case less
      have "(\<Sum>b<n. S ! a ! b * v ! b) = S ! a ! a * v ! a + (\<Sum>b\<in>{..<n} - {a}. S ! a ! b * v ! b)"
        using less.prems by (intro sum.remove) auto
      also have "(\<Sum>b\<in>{..<n} - {a}. S ! a ! b * v ! b) = 0"
      proof (rule sum.neutral, rule ballI)
        fix b assume b: "b \<in> {..<n} - {a}"
        show "S ! a ! b * v ! b = 0"
        proof (cases "b < a")
          case True
          then show ?thesis using inv less.prems len by (simp add: chol_inv_def)
        next
          case False
          then have "a < b" "b < n" using b by auto
          then have "v ! b = 0" using less.hyps[of b] by simp
          then show ?thesis by simp
        qed
      qed
      finally have "S ! a ! a * v ! a = 0" using row[OF less.prems] by simp
      moreover have "S ! a ! a \<noteq> 0" using inv less.prems len by (auto simp: chol_inv_def)
      ultimately show ?case by simp
    qed
    have "v = replicate n 0"
      by (rule nth_equalityI) (use lv z in auto)
    with nz show False by simp
  qed
  with ge show "0 < einsum_i_ij_j v Q v" by simp
qed

lemma chol_loop_returns:
  assumes "sym_pd n Q" and "chol_inv Q n R" and "length R + m = n"
  shows "\<exists>S. chol_loop Q n m R = Inr S"
  using assms(2,3)
proof (induction m arbitrary: R)
  case 0
  then show ?case by simp
next
  case (Suc m)
  have lt: "length R < n" using Suc.prems(2) by simp
  obtain row where r: "chol_row Q n R = Inr row" "chol_inv Q n (R @ [row])"
    using chol_inv_step[OF Suc.prems(1) lt chol_pivot_pos[OF assms(1) Suc.prems(1) lt]] by blast
  have "\<exists>S. chol_loop Q n m (R @ [row]) = Inr S"
    by (rule Suc.IH[OF r(2)]) (use Suc.prems(2) in simp)
  then show ?case using r(1) by simp
qed

lemma chol_factor_props:
  assumes inv: "chol_inv Q n S" and len: "length S = n"
  shows "is_mat n n S" and "upper_triangular S" and "\<forall>i<n. 0 < S ! i ! i"
    and "symmetric n Q \<Longrightarrow> gram S = Q"
proof -
  show m: "is_mat n n S"
    by (rule is_matI[OF len]) (use inv len in \<open>simp add: chol_inv_def\<close>)
  show "upper_triangular S" using inv by (simp add: upper_triangular_def chol_inv_def)
  show "\<forall>i<n. 0 < S ! i ! i" using inv len by (simp add: chol_inv_def)
  show "gram S = Q" if sym: "symmetric n Q"
  proof (cases "n = 0")
    case True
    then show ?thesis using len sym by (simp add: gram_def ncols_def symmetric_def is_mat_def)
  next
    case False
    then have nc: "ncols S = n" using ncols_is_mat[OF m] by simp
    have g: "is_mat n n (gram S)"
      by (rule is_matI) (simp_all add: gram_def nc)
    have q: "is_mat n n Q" using sym by (simp add: symmetric_def)
    show ?thesis
    proof (rule mat_eqI[OF g q])
      fix a b assume ab: "a < n" "b < n"
      have "gram S ! a ! b = (\<Sum>k<n. S ! k ! a * S ! k ! b)"
        using gram_nth[of a S b] ab nc len by simp
      also have "\<dots> = Q ! a ! b"
      proof (cases "a \<le> b")
        case True
        then show ?thesis using chol_inv_entry[OF inv, of a b] ab len by simp
      next
        case False
        have "(\<Sum>l<n. S ! l ! a * S ! l ! b) = (\<Sum>l<n. S ! l ! b * S ! l ! a)" by (simp add: mult.commute)
        also have "\<dots> = Q ! b ! a" using chol_inv_entry[OF inv, of b a] ab len False by simp
        also have "\<dots> = Q ! a ! b" using sym ab by (simp add: symmetric_def)
        finally show ?thesis .
      qed
      finally show "gram S ! a ! b = Q ! a ! b" .
    qed
  qed
qed

lemma cholesky_upper_spd:
  assumes "sym_pd n Q"
  shows "\<exists>S. cholesky_upper Q = Inr S \<and> is_mat n n S \<and> upper_triangular S
             \<and> (\<forall>i<n. 0 < S ! i ! i) \<and> gram S = Q"
proof -
  have sym: "symmetric n Q" using assms by (simp add: sym_pd_def)
  then have m: "is_mat n n Q" by (simp add: symmetric_def)
  then have l: "length Q = n" by (rule is_mat_length)
  obtain S where S: "chol_loop Q n n [] = Inr S"
    using chol_loop_returns[OF assms chol_inv_empty, of n] by auto
  have i: "chol_inv Q n S \<and> length S = n"
    by (rule chol_loop_inv[OF chol_inv_empty _ S]) simp
  have c: "cholesky_upper Q = Inr S" using m l S by (simp add: cholesky_upper_def)
  from i have inv: "chol_inv Q n S" and len: "length S = n" by simp_all
  show ?thesis
    using c chol_factor_props(1,2,3)[OF inv len] chol_factor_props(4)[OF inv len sym] by blast
qed

lemma cholesky_upper_not_pd:
  assumes sym: "symmetric n Q" and npd: "\<not> pd n Q"
  shows "cholesky_upper Q = Inl LinAlgError"
proof -
  have m: "is_mat n n Q" using sym by (simp add: symmetric_def)
  then have l: "length Q = n" by (rule is_mat_length)
  have c: "cholesky_upper Q = chol_loop Q n n []" using m l by (simp add: cholesky_upper_def)
  show ?thesis
  proof (cases "chol_loop Q n n []")
    case (Inl err)
    then show ?thesis using chol_loop_error[OF Inl] c by simp
  next
    case (Inr S)
    have "chol_inv Q n S \<and> length S = n"
      by (rule chol_loop_inv[OF chol_inv_empty _ Inr]) simp
    then have "pd n Q" using chol_factor_pd sym by blast
    with npd show ?thesis by simp
  qed
qed

lemma upper_sym_length [simp]: "length (upper_sym Q) = length Q"
  by (simp add: upper_sym_def)

lemma upper_sym_nth:
  "i < length Q \<Longrightarrow> j < length Q \<Longrightarrow> upper_sym Q ! i ! j = (if i \<le> j then Q ! i ! j else Q ! j ! i)"
  by (simp add: upper_sym_def)

lemma upper_sym_symmetric: "symmetric (length Q) (upper_sym Q)"
  unfolding symmetric_def
proof (intro conjI allI impI)
  show "is_mat (length Q) (length Q) (upper_sym Q)"
    by (rule is_matI) (simp_all add: upper_sym_def)
next
  fix i j assume "i < length Q" "j < length Q"
  then show "upper_sym Q ! i ! j = upper_sym Q ! j ! i"
    by (auto simp: upper_sym_nth)
qed

lemma upper_sym_id:
  assumes "symmetric n Q"
  shows "upper_sym Q = Q"
proof -
  have m: "is_mat n n Q" using assms by (simp add: symmetric_def)
  then have l: "length Q = n" by (rule is_mat_length)
  have u: "is_mat n n (upper_sym Q)" using upper_sym_symmetric[of Q] l by (simp add: symmetric_def)
  show ?thesis
    by (rule mat_eqI[OF u m]) (use assms l in \<open>auto simp: upper_sym_nth symmetric_def\<close>)
qed

lemma chol_row_upper:
  assumes "length R < length Q"
  shows "chol_row (upper_sym Q) (length Q) R = chol_row Q (length Q) R"
proof -
  have d: "upper_sym Q ! length R ! length R = Q ! length R ! length R"
    using assms by (simp add: upper_sym_nth)
  have e: "upper_sym Q ! length R ! i = Q ! length R ! i" if "length R < i" "i < length Q" for i
    using that assms by (simp add: upper_sym_nth)
  show ?thesis
    unfolding chol_row_value d
    by (auto intro!: map_cong simp: e)
qed

lemma chol_loop_upper:
  "length R + m = length Q \<Longrightarrow> chol_loop (upper_sym Q) (length Q) m R = chol_loop Q (length Q) m R"
proof (induction m arbitrary: R)
  case 0
  then show ?case by simp
next
  case (Suc m)
  have r: "chol_row (upper_sym Q) (length Q) R = chol_row Q (length Q) R"
    by (rule chol_row_upper) (use Suc.prems in simp)
  show ?case
  proof (cases "chol_row Q (length Q) R")
    case (Inl e)
    then show ?thesis using r by simp
  next
    case (Inr row)
    have "chol_loop (upper_sym Q) (length Q) m (R @ [row]) = chol_loop Q (length Q) m (R @ [row])"
      by (rule Suc.IH) (use Suc.prems in simp)
    then show ?thesis using r Inr by simp
  qed
qed

lemma cholesky_upper_reads_upper:
  assumes "is_mat n n Q"
  shows "cholesky_upper (upper_sym Q) = cholesky_upper Q"
proof -
  have l: "length Q = n" using assms by (rule is_mat_length)
  have u: "is_mat (length Q) (length Q) (upper_sym Q)"
    using upper_sym_symmetric[of Q] by (simp add: symmetric_def)
  show ?thesis
    using assms l u chol_loop_upper[of "[]" "length Q" Q] by (simp add: cholesky_upper_def)
qed

lemma cholesky_upper_pd:
  assumes "symmetric n Q" and "cholesky_upper Q = Inr S"
  shows "sym_pd n Q"
proof -
  have m: "is_mat n n Q" using assms(1) by (simp add: symmetric_def)
  then have l: "length Q = n" by (rule is_mat_length)
  have c: "chol_loop Q n n [] = Inr S" using assms(2) m l by (simp add: cholesky_upper_def)
  have "chol_inv Q n S \<and> length S = n"
    by (rule chol_loop_inv[OF chol_inv_empty _ c]) simp
  then have "pd n Q" using chol_factor_pd assms(1) by blast
  then show ?thesis using assms(1) by (simp add: sym_pd_def)
qed

subsection \<open>The decomposition\<close>

text \<open>
  Claim C2, in exact arithmetic and with the factorization of the library reading the
  upper triangle of its argument. For every symmetric positive definite \<open>Q\<close> of size
  \<open>n\<close>, \<^verbatim>\<open>DifferentiableCholesky.decompose\<close> returns an upper triangular \<open>S\<close> with
  \<open>S\<^sup>T S = Q\<close> and stores it as \<^verbatim>\<open>work.S\<close>. For every symmetric \<open>Q\<close> that is not positive
  definite the error of the factorization is the result, and nothing is returned. For a
  square \<open>Q\<close> that is not symmetric the result is the one for the symmetric matrix that
  has the upper triangle of \<open>Q\<close>: whether \<open>Q\<close> itself is positive definite does not
  matter.
\<close>

theorem decompose_cholesky:
  assumes la: "scipy_cholesky la = cholesky_upper"
  shows "(sym_pd n Q \<longrightarrow>
            (\<exists>S. decompose la work Q = Inr (work\<lparr>cw_S := Some S\<rparr>, S)
                 \<and> is_mat n n S \<and> upper_triangular S \<and> gram S = Q))
       \<and> (symmetric n Q \<and> \<not> pd n Q \<longrightarrow> decompose la work Q = Inl LinAlgError)
       \<and> (is_mat n n Q \<longrightarrow> decompose la work Q = decompose la work (upper_sym Q))"
proof (intro conjI impI)
  assume "sym_pd n Q"
  then obtain S where S: "cholesky_upper Q = Inr S" "is_mat n n S" "upper_triangular S" "gram S = Q"
    using cholesky_upper_spd by blast
  have "decompose la work Q = Inr (work\<lparr>cw_S := Some S\<rparr>, S)"
    using S(1) by (simp add: decompose_def la)
  with S show "\<exists>S. decompose la work Q = Inr (work\<lparr>cw_S := Some S\<rparr>, S)
                 \<and> is_mat n n S \<and> upper_triangular S \<and> gram S = Q"
    by blast
next
  assume "symmetric n Q \<and> \<not> pd n Q"
  then have "cholesky_upper Q = Inl LinAlgError" using cholesky_upper_not_pd by blast
  then show "decompose la work Q = Inl LinAlgError" by (simp add: decompose_def la)
next
  assume "is_mat n n Q"
  then have "cholesky_upper (upper_sym Q) = cholesky_upper Q" by (rule cholesky_upper_reads_upper)
  then show "decompose la work Q = decompose la work (upper_sym Q)" by (simp add: decompose_def la)
qed

lemma chol_loop_two: "chol_loop Q n 2 R =
  (case chol_row Q n R of Inl err \<Rightarrow> Inl err
   | Inr r0 \<Rightarrow> (case chol_row Q n (R @ [r0]) of Inl err \<Rightarrow> Inl err | Inr r1 \<Rightarrow> Inr (R @ [r0] @ [r1])))"
  by (simp add: numeral_2_eq_2 split: sum.splits)

lemma upt_two: "[0..<2] = [0, 1]"
  by (simp add: numeral_2_eq_2)

lemma cholesky_upper_example: "cholesky_upper [[4, 2], [2, 5]] = Inr [[2, 1], [0, 2]]"
  by (simp add: cholesky_upper_def is_mat_def chol_loop_two chol_row_def upt_two)

lemma cholesky_upper_indefinite: "cholesky_upper [[1, 2], [2, 1]] = Inl LinAlgError"
  by (simp add: cholesky_upper_def is_mat_def chol_loop_two chol_row_def upt_two)

lemma cholesky_upper_not_symmetric: "cholesky_upper [[1, 2], [100, 5]] = Inr [[1, 2], [0, 1]]"
  by (simp add: cholesky_upper_def is_mat_def chol_loop_two chol_row_def upt_two)

lemma symmetric_two: "symmetric 2 [[a, b], [b, c]]"
  by (simp add: symmetric_def is_mat_def numeral_2_eq_2 less_Suc_eq)

lemma quad_two: "einsum_i_ij_j [x, y] [[a, b], [c, d]] [x, y] = x * a * x + x * b * y + (y * c * x + y * d * y)"
  by (simp add: einsum_i_ij_j_def upt_two)

lemma not_pd_two:
  assumes "a - b - c + d \<le> 0"
  shows "\<not> pd 2 [[a, b], [c, d]]"
proof
  assume "pd 2 [[a, b], [c, d]]"
  then have "0 < einsum_i_ij_j [1, - 1] [[a, b], [c, d]] [1, - 1]"
    unfolding pd_def by (rule allE[of _ "[1, - 1]"]) (simp add: numeral_2_eq_2)
  then show False using assms by (simp add: quad_two)
qed

theorem decompose_cholesky_witness:
  "scipy_cholesky la_upper = cholesky_upper
   \<and> sym_pd 2 [[4, 2], [2, 5]]
   \<and> decompose la_upper chol_Work [[4, 2], [2, 5]]
       = Inr (chol_Work\<lparr>cw_S := Some [[2, 1], [0, 2]]\<rparr>, [[2, 1], [0, 2]])
   \<and> upper_triangular [[2, 1], [0, 2]] \<and> gram [[2, 1], [0, 2]] = [[4, 2], [2, 5]]
   \<and> symmetric 2 [[1, 2], [2, 1]] \<and> \<not> pd 2 [[1, 2], [2, 1]]
   \<and> decompose la_upper chol_Work [[1, 2], [2, 1]] = Inl LinAlgError
   \<and> is_mat 2 2 [[1, 2], [100, 5]] \<and> upper_sym [[1, 2], [100, 5]] = [[1, 2], [2, 5]]
   \<and> decompose la_upper chol_Work [[1, 2], [100, 5]] = decompose la_upper chol_Work [[1, 2], [2, 5]]"
proof -
  have la: "scipy_cholesky la_upper = cholesky_upper" by (simp add: la_upper_def)
  note t = decompose_cholesky[OF la]
  have p: "sym_pd 2 [[4, 2], [2, 5]]"
    by (rule cholesky_upper_pd[OF symmetric_two cholesky_upper_example])
  obtain S where S: "decompose la_upper chol_Work [[4, 2], [2, 5]] = Inr (chol_Work\<lparr>cw_S := Some S\<rparr>, S)"
      "upper_triangular S" "gram S = [[4, 2], [2, 5]]"
    using t[of 2 "[[4, 2], [2, 5]]" chol_Work, THEN conjunct1] p by blast
  have "decompose la_upper chol_Work [[4, 2], [2, 5]]
       = Inr (chol_Work\<lparr>cw_S := Some [[2, 1], [0, 2]]\<rparr>, [[2, 1], [0, 2]])"
    by (simp add: decompose_def la cholesky_upper_example)
  with S(1) have S2: "S = [[2, 1], [0, 2]]" by simp
  have s: "symmetric 2 [[1, 2], [2, 1]]" by (rule symmetric_two)
  have np: "\<not> pd 2 [[1, 2], [2, 1]]" by (rule not_pd_two) simp
  have e: "decompose la_upper chol_Work [[1, 2], [2, 1]] = Inl LinAlgError"
    using t[of 2 "[[1, 2], [2, 1]]" chol_Work, THEN conjunct2, THEN conjunct1] s np by blast
  have m: "is_mat 2 2 [[1, 2], [100, 5]]" by (simp add: is_mat_def)
  have u: "upper_sym [[1, 2], [100, 5]] = [[1, 2], [2, 5]]" by (simp add: upper_sym_def upt_two)
  have r: "decompose la_upper chol_Work [[1, 2], [100, 5]] = decompose la_upper chol_Work [[1, 2], [2, 5]]"
    using t[of 2 "[[1, 2], [100, 5]]" chol_Work, THEN conjunct2, THEN conjunct2] m u by simp
  from la p S S2 s np e m u r show ?thesis by simp
qed

text \<open>
  The matrix with the rows \<open>(1, 2)\<close> and \<open>(100, 5)\<close> is not symmetric and not positive
  definite: its quadratic form is \<open>- 96\<close> at \<open>(1, - 1)\<close>. The decomposition does not fail
  on it. It returns and stores the factor of the matrix with the rows \<open>(1, 2)\<close> and
  \<open>(2, 5)\<close>, whose product with its transpose is not the argument.
\<close>

theorem decompose_not_symmetric_counterexample:
  "\<not> pd 2 [[1, 2], [100, 5]] \<and> \<not> sym_pd 2 [[1, 2], [100, 5]]
   \<and> decompose la_upper chol_Work [[1, 2], [100, 5]]
       = Inr (chol_Work\<lparr>cw_S := Some [[1, 2], [0, 1]]\<rparr>, [[1, 2], [0, 1]])
   \<and> gram [[1, 2], [0, 1]] = [[1, 2], [2, 5]]
   \<and> gram [[1, 2], [0, 1]] \<noteq> [[1, 2], [100, 5]]"
proof -
  have np: "\<not> pd 2 [[1, 2], [100, 5]]" by (rule not_pd_two) simp
  then have ns: "\<not> sym_pd 2 [[1, 2], [100, 5]]" by (simp add: sym_pd_def)
  have d: "decompose la_upper chol_Work [[1, 2], [100, 5]]
       = Inr (chol_Work\<lparr>cw_S := Some [[1, 2], [0, 1]]\<rparr>, [[1, 2], [0, 1]])"
    by (simp add: decompose_def la_upper_def cholesky_upper_not_symmetric)
  have g: "gram [[1, 2], [0, 1]] = [[1, 2], [2, 5]]"
    by (simp add: gram_def ncols_def upt_two)
  show ?thesis using np ns d g by simp
qed


section \<open>One correction, step by step\<close>

lemma sigma_points_one:
  "sigma_points la_scalar ut_one (UnscentedTransformWork [0] [[4]]) =
     Inr ((UnscentedTransformWork [0] [[4]])\<lparr>cw_S := Some [[2]], utw_i_sigma := Some [[2], [- 2]],
            utw_i_dev := Some [[2], [- 2]]\<rparr>, [[2], [- 2]])"
  by (simp add: sigma_points_def ut_sqrt_def decompose_def la_scalar_def ut_one_def Let_def
      smul_def zeros_def assign_rows_def mneg_def vadd_def UnscentedTransformWork_def numeral_2_eq_2)

lemma transform_one:
  assumes "f [[2], [- 2]] = Inr [[2], [- 2]]"
  shows "transform la_scalar ut_one (UnscentedTransformWork [0] [[4]]) f = Inr (utw_corrected, [0], [[4]])"
  using assms
  by (simp add: transform_def sigma_points_one Let_def)
     (simp add: ut_one_def einsum_k_ki_def einsum_ki_kj_k_def ncols_def vsub_def utw_corrected_def
        UnscentedTransformWork_def upt_rec)

lemma crosscov_one: "crosscov ut_one utw_corrected = Inr [[4]]"
  by (simp add: crosscov_def attr_def utw_corrected_def einsum_ki_kj_k_def ncols_def ut_one_def upt_rec)

lemma correct_value:
  assumes na: "\<not> list_all id (getmaskarray y)"
    and R: "model_R (corr_model self) = Inr Rfull"
    and t: "transform la (corrector_ut self) (UnscentedTransformWork (w_x work) (w_Px work))
              (\<lambda>x. case model_h (corr_model self) (w_k work) x of
                      Inl err \<Rightarrow> Inl err
                    | Inr hx \<Rightarrow> Inr (map (compress (map Not (getmaskarray y))) hx))
            = Inr (cu, h, Ph)"
    and c: "crosscov (corrector_ut self) cu = Inr Pxh"
    and d: "decompose la chol_Work
              (madd Ph (map (compress (map Not (getmaskarray y))) (compress (map Not (getmaskarray y)) Rfull)))
            = Inr (pc, PyC)"
    and i: "scipy_inv la PyC = Inr PyCI"
  shows "correct la self work y =
     Inr (work\<lparr>w_active := Some (map Not (getmaskarray y)),
               w_corr_ut := Some cu,
               w_py_chol := Some pc,
               w_prev_x := Some (w_x work),
               w_prev_Px := Some (w_Px work),
               w_e := Some (vsub (compressed y) h),
               w_x := vadd (w_x work) (einsum_ij_j (einsum_ik_kj Pxh (einsum_ik_jk PyCI PyCI)) (vsub (compressed y) h)),
               w_Px := msub (w_Px work)
                  (einsum_ik_jl_kl (einsum_ik_kj Pxh (einsum_ik_jk PyCI PyCI))
                     (einsum_ik_kj Pxh (einsum_ik_jk PyCI PyCI))
                     (madd Ph (map (compress (map Not (getmaskarray y))) (compress (map Not (getmaskarray y)) Rfull)))),
               w_Pxh := Some Pxh,
               w_PyI := Some (einsum_ik_jk PyCI PyCI),
               w_PyC := Some PyC,
               w_PyCI := Some PyCI,
               w_K := Some (einsum_ik_kj Pxh (einsum_ik_jk PyCI PyCI))\<rparr>,
          vadd (w_x work) (einsum_ij_j (einsum_ik_kj Pxh (einsum_ik_jk PyCI PyCI)) (vsub (compressed y) h)),
          msub (w_Px work)
                  (einsum_ik_jl_kl (einsum_ik_kj Pxh (einsum_ik_jk PyCI PyCI))
                     (einsum_ik_kj Pxh (einsum_ik_jk PyCI PyCI))
                     (madd Ph (map (compress (map Not (getmaskarray y))) (compress (map Not (getmaskarray y)) Rfull)))))"
  unfolding correct_def Let_def using na R t c d i by simp

lemma correct_one:
  "correct la_scalar corrector_one work_one [(8, False)] = Inr (work_corrected, [2], [[3]])"
proof -
  let ?y = "[(8::real, False)]"
  let ?h = "\<lambda>x. case model_h (corr_model corrector_one) (w_k work_one) x of
              Inl err \<Rightarrow> Inl err | Inr hx \<Rightarrow> Inr (map (compress (map Not (getmaskarray ?y))) hx)"
  have h: "?h [[2], [- 2]] = Inr [[2], [- 2]]"
    by (simp add: corrector_one_def model_one_def compress_def getmaskarray_def)
  have w: "w_x work_one = [0]" "w_Px work_one = [[4]]"
    by (simp_all add: work_one_def DTKalmanFilterWork_def)
  have t: "transform la_scalar (corrector_ut corrector_one) (UnscentedTransformWork (w_x work_one) (w_Px work_one)) ?h
      = Inr (utw_corrected, [0], [[4]])"
    using transform_one[of ?h] h by (simp add: corrector_one_def w)
  have R: "model_R (corr_model corrector_one) = Inr [[12]]"
    by (simp add: corrector_one_def model_one_def)
  have c: "crosscov (corrector_ut corrector_one) utw_corrected = Inr [[4]]"
    using crosscov_one by (simp add: corrector_one_def)
  have d: "decompose la_scalar chol_Work
       (madd [[4]] (map (compress (map Not (getmaskarray ?y))) (compress (map Not (getmaskarray ?y)) [[12]])))
       = Inr (chol_Work\<lparr>cw_S := Some [[4]]\<rparr>, [[4]])"
    by (simp add: decompose_def la_scalar_def getmaskarray_def compress_def madd_def vadd_def)
  have i: "scipy_inv la_scalar [[4]] = Inr [[1 / 4]]" by (simp add: la_scalar_def)
  have na: "\<not> list_all id (getmaskarray ?y)" by (simp add: getmaskarray_def)
  show ?thesis
    unfolding correct_value[OF na R t c d i]
    by (simp add: getmaskarray_def compressed_def w compress_def madd_def vadd_def
        einsum_ik_jk_def einsum_ik_kj_def einsum_ij_j_def einsum_ik_jl_kl_def ncols_def vsub_def
        msub_def work_corrected_def)
qed

lemma diff_A_one: "diff_A [[2]] [0] [0] [0] (0, 0, 0, 0) = 4"
  by (simp add: diff_A_def ix_positions_def scatter_def Let_def)

lemma diff_one:
  "diff la_scalar utw_corrected [[[0]]] =
     Inr (utw_corrected\<lparr>cw_ni_range := Some [0], cw_ni_tril_indices := Some ([0], [0]),
                          cw_gradient_data_initialized := Some 1\<rparr>, [[[0]]])"
  by (simp add: diff_def attr_def utw_corrected_def UnscentedTransformWork_def
      initialize_gradient_data_def tril_indices_def Let_def diff_A_one la_scalar_def
      einsum_ij_j_def zeros_def assign_ji_def)

lemma sigma_points_diff_one:
  "sigma_points_diff la_scalar ut_one utw_corrected [[0]] [[[0]]] =
     Inr (utw_corrected\<lparr>cw_ni_range := Some [0], cw_ni_tril_indices := Some ([0], [0]),
                          cw_gradient_data_initialized := Some 1,
                          utw_di_dev_dq := Some [[[0]], [[0]]],
                          utw_di_sigma_dq := Some [[[0]], [[0]]]\<rparr>, [[[0]], [[0]]])"
  by (simp add: sigma_points_diff_def ut_sqrt_diff_def ut_one_def smul_def diff_one Let_def
      zeros_def ncols_def assign_rows_def rollaxis_def mneg_def madd_def vadd_def numeral_2_eq_2)

lemma transform_diff_one:
  assumes "df_dq [[2], [- 2]] = Inr [[[0]], [[0]]]" "df_dx [[2], [- 2]] = Inr [[[1]], [[1]]]"
  shows "transform_diff la_scalar ut_one utw_corrected df_dq df_dx [[0]] [[[0]]] =
     Inr (utw_corrected\<lparr>cw_ni_range := Some [0], cw_ni_tril_indices := Some ([0], [0]),
                          cw_gradient_data_initialized := Some 1,
                          utw_di_dev_dq := Some [[[0]], [[0]]],
                          utw_di_sigma_dq := Some [[[0]], [[0]]],
                          utw_do_dev_dq := Some [[[0]], [[0]]]\<rparr>, [[0]], [[[0]]])"
proof -
  have a: "attr ''i_sigma'' (utw_i_sigma utw_corrected) = Inr [[2], [- 2]]"
    by (simp add: attr_def utw_corrected_def)
  show ?thesis
    unfolding transform_diff_def Let_def a
    by (simp add: sigma_points_diff_one assms)
       (simp add: attr_def utw_corrected_def UnscentedTransformWork_def einsum_ijk_ilj_ilk_def
          einsum_k_k3_def einsum_klj_ki_k_def ncols_def madd_def vadd_def msub_def vsub_def
          ut_one_def np_transpose_def upt_rec)
qed

section \<open>The update of the log-likelihood\<close>






section \<open>The derivatives of the correction\<close>

lemma case_raises:
  assumes "\<And>x. \<exists>err. g x = Inl err"
  shows "\<exists>err. (case m of Inl e \<Rightarrow> Inl e | Inr x \<Rightarrow> g x) = Inl err"
  using assms by (cases m) auto

text \<open>
  Claim C7. On an identity step \<^verbatim>\<open>correction_diff\<close> returns the context as it is. After a
  correction with an active entry it never returns: whatever the context holds, the call
  ends in an error, and \<open>dx_dq\<close> and \<open>dPx_dq\<close> are not updated. With every attribute in
  place and every derivative of the transform computed, the error is the unbound name
  \<^verbatim>\<open>dPh_dq\<close>, as the run after the correction of \<open>work_one\<close> shows.
\<close>

theorem correction_diff_raises:
  assumes "w_active work = Some active"
  shows "(\<not> list_ex id active \<longrightarrow> correction_diff la self work = Inr work)
       \<and> (list_ex id active \<longrightarrow> (\<exists>err. correction_diff la self work = Inl err))"
proof (intro conjI impI)
  assume "\<not> list_ex id active"
  then show "correction_diff la self work = Inr work"
    using assms by (simp add: correction_diff_def attr_def)
next
  assume ex: "list_ex id active"
  have a: "attr ''active'' (w_active work) = Inr active" using assms by (simp add: attr_def)
  show "\<exists>err. correction_diff la self work = Inl err"
    unfolding correction_diff_def a Let_def
    apply (simp add: ex del: split_paired_All split_paired_Ex)
    apply (intro case_raises)
    apply (simp add: split_def del: split_paired_All split_paired_Ex)
    apply (intro case_raises)
    apply simp
    done
qed

lemma crosscov_diff_one:
  "crosscov_diff ut_one
     (utw_corrected\<lparr>cw_ni_range := Some [0], cw_ni_tril_indices := Some ([0], [0]),
                    cw_gradient_data_initialized := Some 1,
                    utw_di_dev_dq := Some [[[0]], [[0]]],
                    utw_di_sigma_dq := Some [[[0]], [[0]]],
                    utw_do_dev_dq := Some [[[0]], [[0]]]\<rparr>) = Inr [[[0]]]"
  by (simp add: crosscov_diff_def attr_def utw_corrected_def UnscentedTransformWork_def
      einsum_kli_kj_k_def einsum_ki_klj_k_def ncols_def ut_one_def madd_def vadd_def upt_rec Let_def)

lemma correction_diff_one:
  "correction_diff la_scalar corrector_one work_corrected = Inl (NameError ''dPh_dq'')"
proof -
  let ?dq = "\<lambda>x. case model_dh_dq (corr_model corrector_one) (w_k work_corrected) x of
                    Inl err \<Rightarrow> Inl err | Inr d \<Rightarrow> Inr (map (map (compress [True])) d)"
  let ?dx = "\<lambda>x. case model_dh_dx (corr_model corrector_one) (w_k work_corrected) x of
                    Inl err \<Rightarrow> Inl err | Inr d \<Rightarrow> Inr (map (map (compress [True])) d)"
  have a: "?dq [[2], [- 2]] = Inr [[[0]], [[0]]]" "?dx [[2], [- 2]] = Inr [[[1]], [[1]]]"
    by (simp_all add: corrector_one_def model_one_def compress_def)
  note td = transform_diff_one[of ?dq ?dx, OF a]
  have f: "w_active work_corrected = Some [True]" "w_corr_ut work_corrected = Some utw_corrected"
    "w_dx_dq work_corrected = Some [[0]]" "w_dPx_dq work_corrected = Some [[[0]]]"
    by (simp_all add: work_corrected_def work_one_def DTKalmanFilterWork_def)
  have u: "corrector_ut corrector_one = ut_one" by (simp add: corrector_one_def)
  have r: "model_dR_dq (corr_model corrector_one) = Inr [[[0]]]"
    by (simp add: corrector_one_def model_one_def)
  show ?thesis
    unfolding correction_diff_def Let_def f attr_def u
    by (simp add: td crosscov_diff_one[unfolded One_nat_def] r)
qed

theorem correction_diff_raises_witness:
  "w_active work_corrected = Some [True] \<and> list_ex id [True]
   \<and> correct la_scalar corrector_one work_one [(8, False)] = Inr (work_corrected, [2], [[3]])
   \<and> correction_diff la_scalar corrector_one work_corrected = Inl (NameError ''dPh_dq'')"
proof -
  have f: "w_active work_corrected = Some [True]"
    by (simp add: work_corrected_def work_one_def DTKalmanFilterWork_def)
  obtain err where "correction_diff la_scalar corrector_one work_corrected = Inl err"
    using correction_diff_raises[OF f, of la_scalar corrector_one] by auto
  then have "correction_diff la_scalar corrector_one work_corrected = Inl (NameError ''dPh_dq'')"
    using correction_diff_one by simp
  with f correct_one show ?thesis by simp
qed

section \<open>The linear system of the Cholesky derivative\<close>
















section \<open>Derivatives of the sigma points\<close>














end
